theory Spec2Isabelle
  imports Complex_Main "HOL-Library.Signed_Division"
begin

section \<open>JavaScript numbers with their special values\<close>

text \<open>
  The detector computes on JavaScript numbers (samples live in a \<^verbatim>\<open>Float32Array\<close>).
  A number is modelled as a finite real or one of the three special values
  \<^verbatim>\<open>Infinity\<close>, \<^verbatim>\<open>-Infinity\<close> and \<^verbatim>\<open>NaN\<close>, so that a division by zero is a value
  of the model, as it is in the program. Finite arithmetic is exact: rounding to
  float32 or float64, overflow of finite results and the sign of zero are not
  represented (a zero divisor counts as \<^verbatim>\<open>+0\<close>).
\<close>

datatype number = Fin real | PInf | NInf | NaN

fun signed_inf :: "real \<Rightarrow> number" where
  "signed_inf s = (if 0 < s then PInf else if s < 0 then NInf else NaN)"

fun sign_of :: "number \<Rightarrow> real" where
  "sign_of (Fin a) = sgn a"
| "sign_of PInf = 1"
| "sign_of NInf = - 1"
| "sign_of NaN = 0"

fun js_neg :: "number \<Rightarrow> number" where
  "js_neg (Fin a) = Fin (- a)"
| "js_neg PInf = NInf"
| "js_neg NInf = PInf"
| "js_neg NaN = NaN"

fun js_add :: "number \<Rightarrow> number \<Rightarrow> number" where
  "js_add NaN y = NaN"
| "js_add x NaN = NaN"
| "js_add (Fin a) (Fin b) = Fin (a + b)"
| "js_add PInf NInf = NaN"
| "js_add NInf PInf = NaN"
| "js_add PInf y = PInf"
| "js_add NInf y = NInf"
| "js_add (Fin a) y = y"

definition js_sub :: "number \<Rightarrow> number \<Rightarrow> number" where
  "js_sub x y = js_add x (js_neg y)"

fun js_mul :: "number \<Rightarrow> number \<Rightarrow> number" where
  "js_mul NaN y = NaN"
| "js_mul x NaN = NaN"
| "js_mul (Fin a) (Fin b) = Fin (a * b)"
| "js_mul x y = signed_inf (sign_of x * sign_of y)"

fun js_div :: "number \<Rightarrow> number \<Rightarrow> number" where
  "js_div NaN y = NaN"
| "js_div x NaN = NaN"
| "js_div (Fin a) (Fin b) = (if b = 0 then signed_inf a else Fin (a / b))"
| "js_div (Fin a) y = Fin 0"
| "js_div x (Fin b) = (if b < 0 then js_neg x else x)"
| "js_div x y = NaN"

fun js_lt :: "number \<Rightarrow> number \<Rightarrow> bool" where
  "js_lt NaN y = False"
| "js_lt x NaN = False"
| "js_lt (Fin a) (Fin b) = (a < b)"
| "js_lt x PInf = (x \<noteq> PInf)"
| "js_lt NInf y = (y \<noteq> NInf)"
| "js_lt x y = False"

fun js_le :: "number \<Rightarrow> number \<Rightarrow> bool" where
  "js_le NaN y = False"
| "js_le x NaN = False"
| "js_le x y = (x = y \<or> js_lt x y)"

definition js_gt :: "number \<Rightarrow> number \<Rightarrow> bool" where
  "js_gt x y = js_lt y x"

definition js_ge :: "number \<Rightarrow> number \<Rightarrow> bool" where
  "js_ge x y = js_le y x"

fun js_floor :: "number \<Rightarrow> number" where
  "js_floor (Fin a) = Fin (of_int \<lfloor>a\<rfloor>)"
| "js_floor x = x"

fun js_sqrt :: "number \<Rightarrow> number" where
  "js_sqrt (Fin a) = (if a < 0 then NaN else Fin (sqrt a))"
| "js_sqrt PInf = PInf"
| "js_sqrt x = NaN"

fun js_min :: "number \<Rightarrow> number \<Rightarrow> number" where
  "js_min NaN y = NaN"
| "js_min x NaN = NaN"
| "js_min x y = (if js_lt y x then y else x)"

fun js_max :: "number \<Rightarrow> number \<Rightarrow> number" where
  "js_max NaN y = NaN"
| "js_max x NaN = NaN"
| "js_max x y = (if js_lt x y then y else x)"

text \<open>
  Reading a typed array: an index past the end yields \<^verbatim>\<open>undefined\<close>, which every
  arithmetic operation and comparison of the detector treats as \<^verbatim>\<open>NaN\<close>.
\<close>

definition item :: "number list \<Rightarrow> nat \<Rightarrow> number" where
  "item xs i = (if i < length xs then xs ! i else NaN)"

section \<open>The pitch detector\<close>

text \<open>
  The definitions follow \<^verbatim>\<open>src/pitch-detector.js\<close>, function by function and under the
  names of the source. The detector of the desktop port
  (\<^verbatim>\<open>src/AccordatoreChitarra/AudioEngine.cs\<close>) has the same functions with the same
  statements.
\<close>

text \<open>
  \<^verbatim>\<open>parabolicInterpolation(data, index)\<close>: the index is returned as it is at either
  end of the array; everywhere else the offset
  \<^verbatim>\<open>0.5 * (alpha - gamma) / (alpha - 2 * beta + gamma)\<close> is added to it. The source
  has no test of the denominator.
\<close>

definition parabolicInterpolation :: "number list \<Rightarrow> nat \<Rightarrow> number" where
  "parabolicInterpolation data index =
     (if int index \<le> 0 \<or> int index \<ge> int (length data) - 1 then Fin (real index)
      else
        let alpha = item data (index - 1);
            beta = item data index;
            gamma = item data (index + 1);
            offset = js_div (js_mul (Fin (1/2)) (js_sub alpha gamma))
                            (js_add (js_sub alpha (js_mul (Fin 2) beta)) gamma)
        in js_add (Fin (real index)) offset)"

text \<open>
  The configuration held by a detector. The rates and frequencies are natural
  numbers: the positive integers of the configuration, and zero, so that a
  degenerate configuration is a value of the model. Negative and fractional rates
  are outside the model.
\<close>

record PitchDetector =
  sampleRate :: nat
  minFrequency :: nat
  maxFrequency :: nat
  threshold :: real

record PitchResult =
  frequency :: number
  confidence :: number
  isValid :: bool
  rms :: number

datatype exception = ConfigurationError | RangeError

text \<open>
  The constructor stores its four arguments. The result is a sum so that a failing
  construction would be a value; the source has no failing path.
\<close>

definition newPitchDetector :: "nat \<Rightarrow> nat \<Rightarrow> nat \<Rightarrow> real \<Rightarrow> exception + PitchDetector" where
  "newPitchDetector sr mn mx th =
     Inr \<lparr>sampleRate = sr, minFrequency = mn, maxFrequency = mx, threshold = th\<rparr>"

text \<open>\<^verbatim>\<open>calculateRMS\<close>: root of the mean of the squares, 0 for an empty buffer.\<close>

definition calculateRMS :: "number list \<Rightarrow> number" where
  "calculateRMS samples =
     (if samples = [] then Fin 0
      else js_sqrt (js_div (foldl (\<lambda>sum x. js_add sum (js_mul x x)) (Fin 0) samples)
                           (Fin (real (length samples)))))"

text \<open>
  The inner loop of the autocorrelation,
  \<^verbatim>\<open>for (i = 0; i < bufferSize - lag; i++) sum += samples[i] * samples[i + lag]\<close>.
  \<open>lagIndices\<close> lists the pairs of indices it reads, in order; the subtraction on
  naturals gives no iteration when \<^verbatim>\<open>bufferSize - lag\<close> is not positive, as the loop
  test does.
\<close>

definition lagIndices :: "nat \<Rightarrow> nat \<Rightarrow> (nat \<times> nat) list" where
  "lagIndices bufferSize lag = map (\<lambda>i. (i, i + lag)) [0 ..< bufferSize - lag]"

definition lagSum :: "number list \<Rightarrow> nat \<Rightarrow> nat \<Rightarrow> number" where
  "lagSum samples bufferSize lag =
     foldl (\<lambda>sum (i, j). js_add sum (js_mul (item samples i) (item samples j)))
           (Fin 0) (lagIndices bufferSize lag)"

text \<open>The outer loop: \<^verbatim>\<open>autocorrelation[lag] = sum\<close> for every lag from minLag to maxLag.\<close>

definition autocorrelationLoop ::
  "number list \<Rightarrow> nat \<Rightarrow> nat \<Rightarrow> nat \<Rightarrow> number list \<Rightarrow> number list" where
  "autocorrelationLoop samples bufferSize minLag maxLag autocorrelation =
     foldl (\<lambda>ac lag. ac[lag := lagSum samples bufferSize lag])
           autocorrelation [minLag ..< Suc maxLag]"

text \<open>
  \<^verbatim>\<open>findFirstPeak\<close>: the running maximum starts at \<^verbatim>\<open>-Infinity\<close> with index 0 and is
  replaced on a strict increase only.
\<close>

definition findFirstPeak :: "number list \<Rightarrow> nat \<Rightarrow> nat \<Rightarrow> nat" where
  "findFirstPeak autocorrelation minLag maxLag =
     snd (foldl (\<lambda>(maxValue, maxIndex) i.
                   if js_gt (item autocorrelation i) maxValue
                   then (item autocorrelation i, i) else (maxValue, maxIndex))
                (NInf, 0) [minLag ..< Suc maxLag])"

text \<open>\<^verbatim>\<open>Math.floor(sampleRate / f)\<close>: a natural number, \<^verbatim>\<open>Infinity\<close> (n / 0) or \<^verbatim>\<open>NaN\<close> (0 / 0).\<close>

definition lagOf :: "nat \<Rightarrow> nat \<Rightarrow> number" where
  "lagOf sr f = js_floor (js_div (Fin (real sr)) (Fin (real f)))"

text \<open>
  \<^verbatim>\<open>autocorrelationPitchDetection\<close> for finite lags: the window, the zero-filled
  array of \<^verbatim>\<open>maxLag + 1\<close> entries, the two loops, the peak, and the conversion of the
  refined lag to a frequency.
\<close>

definition autocorrelationFrom :: "PitchDetector \<Rightarrow> number list \<Rightarrow> nat \<Rightarrow> nat \<Rightarrow> number" where
  "autocorrelationFrom d samples minLag maxLag =
     (let bufferSize = min (length samples) (maxLag * 2);
          autocorrelation = autocorrelationLoop samples bufferSize minLag maxLag
                              (replicate (maxLag + 1) (Fin 0));
          peakLag = findFirstPeak autocorrelation minLag maxLag
      in if peakLag = 0 then Fin 0
         else js_div (Fin (real (sampleRate d)))
                     (parabolicInterpolation autocorrelation peakLag))"

text \<open>
  The lags that are not finite, written out. \<^verbatim>\<open>new Float32Array(maxLag + 1)\<close> throws a
  RangeError for an infinite length and gives an empty array for \<^verbatim>\<open>NaN\<close>. With a lag
  that is \<^verbatim>\<open>NaN\<close>, or a minimum lag that is \<^verbatim>\<open>Infinity\<close>, the test
  \<^verbatim>\<open>lag <= maxLag\<close> is false at once in both loops, the peak index stays 0 and the
  function returns 0.
\<close>

definition autocorrelationPitchDetection :: "PitchDetector \<Rightarrow> number list \<Rightarrow> exception + number" where
  "autocorrelationPitchDetection d samples =
     (case lagOf (sampleRate d) (minFrequency d) of
        Fin hi \<Rightarrow>
          (case lagOf (sampleRate d) (maxFrequency d) of
             Fin lo \<Rightarrow> Inr (autocorrelationFrom d samples (nat \<lfloor>lo\<rfloor>) (nat \<lfloor>hi\<rfloor>))
           | _ \<Rightarrow> Inr (Fin 0))
      | NaN \<Rightarrow> Inr (Fin 0)
      | _ \<Rightarrow> Inl RangeError)"

text \<open>
  \<^verbatim>\<open>calculateConfidence\<close>. After the two guards the period is a natural number
  below half the length, or \<^verbatim>\<open>NaN\<close> (from a \<^verbatim>\<open>NaN\<close> frequency, which passes every
  comparison as false): then \<^verbatim>\<open>count\<close> is \<^verbatim>\<open>NaN\<close>, the loop body never runs and
  \<^verbatim>\<open>sumSquares === 0\<close> returns 0.
\<close>

definition calculateConfidence :: "PitchDetector \<Rightarrow> number list \<Rightarrow> number \<Rightarrow> number" where
  "calculateConfidence d samples freq =
     (if js_le freq (Fin 0) then Fin 0
      else
        let period = js_floor (js_div (Fin (real (sampleRate d))) freq)
        in if js_le period (Fin 0) \<or> js_ge period (js_div (Fin (real (length samples))) (Fin 2))
           then Fin 0
           else
             (case period of
                Fin p \<Rightarrow>
                  let count = min (length samples - nat \<lfloor>p\<rfloor>) (nat \<lfloor>p\<rfloor> * 2);
                      (sum, sumSquares) =
                         foldl (\<lambda>(sum, sumSquares) i.
                                  (js_add sum (js_mul (item samples i) (item samples (i + nat \<lfloor>p\<rfloor>))),
                                   js_add sumSquares (js_mul (item samples i) (item samples i))))
                               (Fin 0, Fin 0) [0 ..< count]
                  in if sumSquares = Fin 0 then Fin 0
                     else js_max (Fin 0) (js_min (Fin 1) (js_div sum sumSquares))
              | _ \<Rightarrow> Fin 0))"

text \<open>\<^verbatim>\<open>detectPitch\<close>: the four returns of the source, in their order.\<close>

definition detectPitch :: "PitchDetector \<Rightarrow> number list \<Rightarrow> exception + PitchResult" where
  "detectPitch d samples =
     (if samples = [] then
        Inr \<lparr>frequency = Fin 0, confidence = Fin 0, isValid = False, rms = Fin 0\<rparr>
      else if js_lt (calculateRMS samples) (Fin (threshold d)) then
        Inr \<lparr>frequency = Fin 0, confidence = Fin 0, isValid = False, rms = calculateRMS samples\<rparr>
      else
        (case autocorrelationPitchDetection d samples of
           Inl e \<Rightarrow> Inl e
         | Inr freq \<Rightarrow>
             if js_lt freq (Fin (real (minFrequency d))) \<or> js_gt freq (Fin (real (maxFrequency d)))
             then Inr \<lparr>frequency = freq, confidence = Fin 0, isValid = False,
                       rms = calculateRMS samples\<rparr>
             else Inr \<lparr>frequency = freq, confidence = calculateConfidence d samples freq,
                       isValid = js_gt (calculateConfidence d samples freq) (Fin (1/2)),
                       rms = calculateRMS samples\<rparr>))"

section \<open>Floating-point rounding\<close>

text \<open>
  The detector above is modelled with exact finite arithmetic. The note mapper is
  where the rounding of the arithmetic decides results: the browser port computes in
  IEEE binary64 and the desktop port keeps its variables in binary32. \<open>round_to p x\<close> is the number with a significand of \<open>p\<close> bits that is
  nearest to the real \<open>x\<close>, a tie going to the even significand (round to nearest,
  ties to even). The exponent is unbounded: overflow to \<^verbatim>\<open>Infinity\<close> and gradual
  underflow are not modelled, so \<open>round_to\<close> is the rounding of the ports wherever the
  values are normal numbers.
\<close>

definition nearest_even :: "real \<Rightarrow> int" where
  "nearest_even x =
     (let f = \<lfloor>x\<rfloor>; r = x - real_of_int f
      in if r < 1/2 then f else if 1/2 < r then f + 1 else if even f then f else f + 1)"

definition round_to :: "nat \<Rightarrow> real \<Rightarrow> real" where
  "round_to p x =
     (if x = 0 then 0
      else let e = \<lfloor>log 2 \<bar>x\<bar>\<rfloor>;
               ulp = 2 powr (real_of_int e - real (p - 1))
           in ulp * real_of_int (nearest_even (x / ulp)))"

definition to_double :: "real \<Rightarrow> real" where
  "to_double = round_to 53"

definition to_float32 :: "real \<Rightarrow> real" where
  "to_float32 = round_to 24"

text \<open>
  \<^verbatim>\<open>Math.log2\<close> and \<^verbatim>\<open>Math.pow\<close> of JavaScript, on positive arguments, taken as
  correctly rounded: the double nearest to the exact value.
\<close>

definition Math_log2 :: "real \<Rightarrow> real" where
  "Math_log2 x = to_double (log 2 x)"

definition Math_pow :: "real \<Rightarrow> real \<Rightarrow> real" where
  "Math_pow b x = to_double (b powr x)"

text \<open>
  \<^verbatim>\<open>Math.Log(a, newBase)\<close> of .NET is the quotient of two natural logarithms,
  \<^verbatim>\<open>Math.Log(a) / Math.Log(newBase)\<close>, each of them taken as correctly rounded, and
  \<^verbatim>\<open>Math.Pow\<close> is taken as correctly rounded.
\<close>

definition Math_Log :: "real \<Rightarrow> real \<Rightarrow> real" where
  "Math_Log a newBase = to_double (to_double (ln a) / to_double (ln newBase))"

definition Math_Pow :: "real \<Rightarrow> real \<Rightarrow> real" where
  "Math_Pow b x = to_double (b powr x)"

section \<open>The note mapper\<close>

text \<open>
  \<^verbatim>\<open>getNoteFromFrequency\<close> of the browser port. Its argument is a finite number, a
  frequency in Hz, and every operator rounds its exact result to a double. The
  fields \<^verbatim>\<open>frequency\<close> and \<^verbatim>\<open>isValid\<close> of the returned object are \<open>noteFrequency\<close> and
  \<open>noteIsValid\<close> here, since the detector's result has fields of the same names.
  A field that the object lacks, or a table entry that does not exist, is
  \<^verbatim>\<open>undefined\<close> in JavaScript and \<open>None\<close> here.
\<close>

record MusicalNote =
  noteName :: "string option"
  noteNameAnglo :: "string option"
  octave :: int
  midiNote :: "int option"
  noteFrequency :: real
  actualFrequency :: real
  centsOffset :: real
  noteIsValid :: bool
  isInTune :: "bool option"
  tuningStatus :: "string option"

definition noteNamesItalian :: "string list" where
  "noteNamesItalian =
     [''DO'', ''DO#'', ''RE'', ''RE#'', ''MI'', ''FA'', ''FA#'', ''SOL'', ''SOL#'', ''LA'', ''LA#'', ''SI'']"

definition noteNamesAnglo :: "string list" where
  "noteNamesAnglo =
     [''C'', ''C#'', ''D'', ''D#'', ''E'', ''F'', ''F#'', ''G'', ''G#'', ''A'', ''A#'', ''B'']"

text \<open>Indexing a JavaScript array: \<^verbatim>\<open>undefined\<close> outside \<^verbatim>\<open>0 .. length - 1\<close>.\<close>

definition lookup :: "string list \<Rightarrow> int \<Rightarrow> string option" where
  "lookup names i = (if 0 \<le> i \<and> i < int (length names) then Some (names ! nat i) else None)"

text \<open>\<^verbatim>\<open>Math.round\<close> rounds a tie towards \<^verbatim>\<open>+Infinity\<close>.\<close>

definition js_round :: "real \<Rightarrow> int" where
  "js_round x = \<lfloor>x + 1/2\<rfloor>"

text \<open>
  The remainder \<^verbatim>\<open>%\<close> takes the sign of the dividend in JavaScript and in C#: it is
  \<open>smod\<close>. The MIDI number is an integer, which a double holds exactly; the octave is
  the floor of the rounded quotient \<^verbatim>\<open>midiNote / 12\<close>.
\<close>

definition getNoteFromFrequency :: "real \<Rightarrow> MusicalNote" where
  "getNoteFromFrequency freq =
     (if freq \<le> 0 then
        \<lparr>noteName = Some [], noteNameAnglo = Some [], octave = 0, midiNote = None,
         noteFrequency = 0, actualFrequency = 0, centsOffset = 0, noteIsValid = False,
         isInTune = None, tuningStatus = None\<rparr>
      else
        let A4 = 440;
            A4_MIDI = 69;
            halfStepsFromA4 = to_double (12 * Math_log2 (to_double (freq / A4)));
            midi = js_round halfStepsFromA4 + A4_MIDI;
            perfectFrequency =
              to_double (A4 * Math_pow 2 (to_double (real_of_int (midi - A4_MIDI) / 12)));
            cents = to_double (1200 * Math_log2 (to_double (freq / perfectFrequency)));
            noteIndex = midi smod 12;
            oct = \<lfloor>to_double (real_of_int midi / 12)\<rfloor> - 1
        in \<lparr>noteName = lookup noteNamesItalian noteIndex,
            noteNameAnglo = lookup noteNamesAnglo noteIndex,
            octave = oct, midiNote = Some midi,
            noteFrequency = perfectFrequency, actualFrequency = freq,
            centsOffset = cents, noteIsValid = True,
            isInTune = Some (\<bar>cents\<bar> < 5),
            tuningStatus = Some (if \<bar>cents\<bar> < 5 then ''In Tune''
                                 else if cents > 0 then ''Sharp'' else ''Flat'')\<rparr>)"

text \<open>
  \<^verbatim>\<open>GetNoteFromFrequency\<close> of the desktop port (C#). Its argument and its variables
  are \<^verbatim>\<open>float\<close>: the quotients and products of two floats and the casts \<^verbatim>\<open>(float)\<close>
  round to binary32, while \<^verbatim>\<open>Math.Log\<close>, \<^verbatim>\<open>Math.Pow\<close> and the division by \<^verbatim>\<open>12.0\<close>
  compute in binary64. The argument is meant to be a binary32 number; the function
  is defined on every real. \<^verbatim>\<open>Math.Round\<close> rounds a tie to the even neighbour, \<^verbatim>\<open>/\<close>
  on \<^verbatim>\<open>int\<close> truncates towards zero (\<open>sdiv\<close>), and an array index outside the table
  throws. The properties \<^verbatim>\<open>MidiNote\<close> and \<^verbatim>\<open>ActualFrequency\<close> keep their default 0
  where the initializer does not set them.
\<close>

record MusicalNoteCS =
  NoteName :: string
  NoteNameAnglo :: string
  Octave :: int
  MidiNote :: int
  Frequency :: real
  ActualFrequency :: real
  CentsOffset :: real
  IsValid :: bool

datatype cs_exception = IndexOutOfRangeException

definition cs_round :: "real \<Rightarrow> int" where
  "cs_round x =
     (let f = \<lfloor>x\<rfloor>; r = x - real_of_int f
      in if r < 1/2 then f else if 1/2 < r then f + 1 else if even f then f else f + 1)"

definition GetNoteFromFrequency :: "real \<Rightarrow> cs_exception + MusicalNoteCS" where
  "GetNoteFromFrequency freq =
     (if freq \<le> 0 then
        Inr \<lparr>NoteName = [], NoteNameAnglo = [], Octave = 0, MidiNote = 0,
             Frequency = 0, ActualFrequency = 0, CentsOffset = 0, IsValid = False\<rparr>
      else
        let A4 = 440;
            A4_MIDI = 69;
            halfStepsFromA4 = to_float32 (12 * to_float32 (Math_Log (to_float32 (freq / A4)) 2));
            midi = cs_round halfStepsFromA4 + A4_MIDI;
            perfectFrequency =
              to_float32 (A4 * to_float32
                (Math_Pow 2 (to_double (real_of_int (midi - A4_MIDI) / 12))));
            cents = to_float32 (1200 * to_float32
                      (Math_Log (to_float32 (freq / perfectFrequency)) 2));
            noteIndex = midi smod 12;
            oct = (midi sdiv 12) - 1
        in if noteIndex < 0 \<or> noteIndex \<ge> 12 then Inl IndexOutOfRangeException
           else Inr \<lparr>NoteName = noteNamesItalian ! nat noteIndex,
                     NoteNameAnglo = noteNamesAnglo ! nat noteIndex,
                     Octave = oct, MidiNote = midi,
                     Frequency = perfectFrequency, ActualFrequency = freq,
                     CentsOffset = cents, IsValid = True\<rparr>)"


section \<open>Auxiliary facts\<close>

lemmas detector_defs = autocorrelationPitchDetection_def autocorrelationFrom_def
  lagOf_def autocorrelationLoop_def lagSum_def lagIndices_def findFirstPeak_def
  parabolicInterpolation_def calculateConfidence_def calculateRMS_def item_def
  js_sub_def js_gt_def js_ge_def

lemma sqrt_less_iff_square: "0 \<le> t \<Longrightarrow> sqrt x < t \<longleftrightarrow> x < t\<^sup>2"
  by (metis abs_of_nonneg real_sqrt_abs real_sqrt_less_iff)

lemma upt_Suc_0_numeral:
  "[Suc 0 ..< numeral n] = (if (1::nat) < numeral n then Suc 0 # [2 ..< numeral n] else [])"
  by (simp add: upt_rec [of "Suc 0"] numeral_2_eq_2)

subsection \<open>The detector returns\<close>

lemma lagOf_pos: "0 < f \<Longrightarrow> lagOf sr f = Fin (real (sr div f))"
  by (simp add: lagOf_def floor_divide_of_nat_eq)

lemma autocorrelation_returns:
  "0 < minFrequency d \<Longrightarrow> \<exists>f. autocorrelationPitchDetection d samples = Inr f"
  by (cases "lagOf (sampleRate d) (maxFrequency d)")
     (simp_all add: autocorrelationPitchDetection_def lagOf_pos)

lemma detectPitch_returns:
  "0 < minFrequency d \<Longrightarrow> \<exists>r. detectPitch d samples = Inr r"
  using autocorrelation_returns [of d samples]
  by (auto simp: detectPitch_def)

subsection \<open>Interpolation away from the ends\<close>

lemma zero_denominator_finite:
  assumes "js_add (js_sub a (js_mul (Fin 2) b)) c = Fin 0"
  obtains x y z where "a = Fin x" "b = Fin y" "c = Fin z" "x - 2 * y + z = 0"
  using assms by (cases a; cases b; cases c) (auto simp: js_sub_def split: if_splits)

lemma parabolicInterpolation_interior:
  assumes "0 < index" and "index + 1 < length data"
  shows "parabolicInterpolation data index =
           js_add (Fin (real index))
             (js_div (js_mul (Fin (1/2)) (js_sub (data ! (index - 1)) (data ! (index + 1))))
                     (js_add (js_sub (data ! (index - 1)) (js_mul (Fin 2) (data ! index)))
                             (data ! (index + 1))))"
proof -
  from assms have b: "index - 1 < length data" "index < length data" "index + 1 < length data"
    by arith+
  from assms have i: "\<not> (int index \<le> 0 \<or> int index \<ge> int (length data) - 1)"
    by simp
  show ?thesis
    unfolding parabolicInterpolation_def item_def Let_def if_not_P [OF i] if_P [OF b(1)]
      if_P [OF b(2)] if_P [OF b(3)] ..
qed

text \<open>
  At a peak that is above its left neighbour and not below its right one, the refined
  lag stays within one half of the index.
\<close>

lemma parabolicInterpolation_at_peak:
  assumes "0 < index" and "index + 1 < length data"
    and "data ! (index - 1) = Fin a" and "data ! index = Fin b" and "data ! (index + 1) = Fin c"
    and "a < b" and "c \<le> b"
  shows "\<exists>r. parabolicInterpolation data index = Fin r \<and>
             real index - 1/2 \<le> r \<and> r \<le> real index + 1/2"
proof -
  define u where "u = b - a"
  define v where "v = b - c"
  define w where "w = (v - u) / (u + v)"
  define offset where "offset = 1/2 * (a - c) / (a - 2 * b + c)"
  have u: "0 < u" and v: "0 \<le> v"
    using assms(6,7) by (simp_all add: u_def v_def)
  have den: "a - 2 * b + c = - (u + v)" and num: "a - c = v - u"
    by (simp_all add: u_def v_def)
  have nz: "a - 2 * b + c \<noteq> 0"
    unfolding den using u v by simp
  have "\<bar>w\<bar> \<le> 1"
    unfolding w_def using u v by (simp add: field_simps abs_if)
  moreover have "offset = - (w / 2)"
    unfolding offset_def den num w_def using u v by (simp add: field_simps)
  ultimately have off: "- (1/2) \<le> offset" "offset \<le> 1/2"
    by simp_all
  have "parabolicInterpolation data index = Fin (real index + offset)"
    unfolding parabolicInterpolation_interior [OF assms(1,2)] assms(3,4,5) offset_def
    using nz by (simp add: js_sub_def)
  moreover have "real index - 1/2 \<le> real index + offset" "real index + offset \<le> real index + 1/2"
    using off by simp_all
  ultimately show ?thesis
    by blast
qed

subsection \<open>Confidence and the gates of detectPitch\<close>

lemma calculateConfidence_NaN: "calculateConfidence d samples NaN = Fin 0"
  by (simp add: calculateConfidence_def js_ge_def)

lemma calculateConfidence_empty: "calculateConfidence d [] f = Fin 0"
  by (cases f) (auto simp: calculateConfidence_def js_ge_def Let_def)

lemma range_test:
  "\<not> (js_lt f (Fin lo) \<or> js_gt f (Fin hi)) \<longleftrightarrow> f = NaN \<or> (js_le (Fin lo) f \<and> js_le f (Fin hi))"
  by (cases f) (auto simp: js_gt_def)

text \<open>A confidence above one half needs a positive period below half the buffer.\<close>

lemma confidence_period:
  assumes "js_gt (calculateConfidence d samples f) (Fin (1/2))"
  obtains x where "f = Fin x" "0 < x"
    "0 < \<lfloor>real (sampleRate d) / x\<rfloor>" "2 * \<lfloor>real (sampleRate d) / x\<rfloor> < int (length samples)"
proof (cases f)
  case (Fin x)
  define p where "p = \<lfloor>real (sampleRate d) / x\<rfloor>"
  have pos: "0 < x"
    using assms unfolding Fin by (auto simp: calculateConfidence_def js_gt_def split: if_splits)
  then have period: "js_floor (js_div (Fin (real (sampleRate d))) (Fin x)) = Fin (real_of_int p)"
    by (simp add: p_def)
  have "\<not> (js_le (Fin (real_of_int p)) (Fin 0) \<or>
            js_ge (Fin (real_of_int p)) (js_div (Fin (real (length samples))) (Fin 2)))"
    using assms pos unfolding Fin calculateConfidence_def Let_def period
    by (auto simp: js_gt_def split: if_splits)
  then have "\<not> real_of_int p \<le> 0" and "\<not> real (length samples) / 2 \<le> real_of_int p"
    by (auto simp: js_ge_def)
  then have "0 < p" and "2 * p < int (length samples)"
    by linarith+
  with Fin pos show ?thesis
    unfolding p_def by (rule that)
next
  case PInf
  with assms show ?thesis
    by (simp add: calculateConfidence_def js_gt_def js_ge_def)
next
  case NInf
  with assms show ?thesis
    by (simp add: calculateConfidence_def js_gt_def js_ge_def)
next
  case NaN
  with assms show ?thesis
    by (simp add: calculateConfidence_NaN js_gt_def)
qed

text \<open>What a valid result tells about the run that produced it.\<close>

lemma detectPitch_valid:
  assumes "detectPitch d samples = Inr r" and "isValid r"
  obtains f where "autocorrelationPitchDetection d samples = Inr f" "frequency r = f"
    "samples \<noteq> []" "\<not> js_lt (calculateRMS samples) (Fin (threshold d))"
    "js_le (Fin (real (minFrequency d))) f" "js_le f (Fin (real (maxFrequency d)))"
    "js_gt (calculateConfidence d samples f) (Fin (1/2))"
proof -
  from assms have ne: "samples \<noteq> []"
    by (auto simp: detectPitch_def split: if_splits)
  from assms have loud: "\<not> js_lt (calculateRMS samples) (Fin (threshold d))"
    by (auto simp: detectPitch_def split: if_splits)
  from assms ne loud obtain f where f: "autocorrelationPitchDetection d samples = Inr f"
    by (cases "autocorrelationPitchDetection d samples") (auto simp: detectPitch_def)
  from assms ne loud f have
    t: "\<not> (js_lt f (Fin (real (minFrequency d))) \<or> js_gt f (Fin (real (maxFrequency d))))"
    and fr: "frequency r = f" and c: "js_gt (calculateConfidence d samples f) (Fin (1/2))"
    by (auto simp: detectPitch_def split: if_splits)
  from c have "f \<noteq> NaN"
    by (auto simp: calculateConfidence_NaN js_gt_def)
  with t range_test [of f "real (minFrequency d)" "real (maxFrequency d)"]
  have "js_le (Fin (real (minFrequency d))) f" "js_le f (Fin (real (maxFrequency d)))"
    by blast+
  with f fr ne loud c show ?thesis
    using that by blast
qed

subsection \<open>Two runs of the detector\<close>

text \<open>
  Six samples of the square wave \<^verbatim>\<open>1, -1, 1, -1, 1, -1\<close> at sample rate 6 with the
  range 1 to 4 Hz: the lags run from 1 to 6, the autocorrelation is
  \<^verbatim>\<open>[0, -5, 4, -3, 2, -1, 0]\<close>, the peak is at lag 2 and the refined lag is 33/16.
\<close>

lemma run6_rms: "calculateRMS [Fin 1, Fin (- 1), Fin 1, Fin (- 1), Fin 1, Fin (- 1)] = Fin 1"
  by (simp add: calculateRMS_def)

lemma run6_autocorrelation:
  assumes "sampleRate d = 6" and "minFrequency d = 1" and "maxFrequency d = 4"
  shows "autocorrelationPitchDetection d
           [Fin 1, Fin (- 1), Fin 1, Fin (- 1), Fin 1, Fin (- 1)] = Inr (Fin (32/11))"
  using assms by (simp add: detector_defs Let_def upt_Suc_0_numeral)

lemma run6_confidence:
  assumes "sampleRate d = 6"
  shows "calculateConfidence d
           [Fin 1, Fin (- 1), Fin 1, Fin (- 1), Fin 1, Fin (- 1)] (Fin (32/11)) = Fin 1"
  using assms by (simp add: detector_defs Let_def)

lemma run6_detectPitch:
  assumes "sampleRate d = 6" and "minFrequency d = 1" and "maxFrequency d = 4"
    and "threshold d \<le> 1"
  shows "detectPitch d [Fin 1, Fin (- 1), Fin 1, Fin (- 1), Fin 1, Fin (- 1)] =
     Inr \<lparr>frequency = Fin (32/11), confidence = Fin 1, isValid = True, rms = Fin 1\<rparr>"
  using assms
  by (simp add: detectPitch_def run6_rms run6_autocorrelation run6_confidence js_gt_def)

text \<open>
  Five samples \<^verbatim>\<open>1, 0.875, 0, -0.875, -1\<close> at sample rate 4 with the range 1 to
  2 Hz: the lags run from 2 to 4, the autocorrelation is
  \<^verbatim>\<open>[0, 0, -0.765625, -1.75, -1]\<close>, the peak is at lag 2, the first lag computed, and
  its left neighbour is an entry the loop never wrote. The offset is
  \<^verbatim>\<open>0.875 / -0.21875 = -4\<close> and the refined lag is -2.
\<close>

lemma run5_rms:
  "calculateRMS [Fin 1, Fin (7/8), Fin 0, Fin (- (7/8)), Fin (- 1)] = Fin (sqrt (113/160))"
  by (simp add: calculateRMS_def)

lemma run5_loud:
  "\<not> js_lt (calculateRMS [Fin 1, Fin (7/8), Fin 0, Fin (- (7/8)), Fin (- 1)]) (Fin (1/10))"
  unfolding run5_rms js_lt.simps
  using sqrt_less_iff_square [of "1/10" "113/160"] by (simp add: power2_eq_square)

lemma run5_autocorrelation:
  assumes "sampleRate d = 4" and "minFrequency d = 1" and "maxFrequency d = 2"
  shows "autocorrelationPitchDetection d
           [Fin 1, Fin (7/8), Fin 0, Fin (- (7/8)), Fin (- 1)] = Inr (Fin (- 2))"
  using assms by (simp add: detector_defs Let_def)

lemma run5_detectPitch:
  "detectPitch
     \<lparr>sampleRate = 4, minFrequency = 1, maxFrequency = 2, threshold = 1/10\<rparr>
     [Fin 1, Fin (7/8), Fin 0, Fin (- (7/8)), Fin (- 1)] =
     Inr \<lparr>frequency = Fin (- 2), confidence = Fin 0, isValid = False,
          rms = Fin (sqrt (113/160))\<rparr>"
proof -
  have "threshold \<lparr>sampleRate = 4, minFrequency = 1, maxFrequency = 2, threshold = 1/10\<rparr> = 1/10"
    by simp
  then show ?thesis
    unfolding detectPitch_def using run5_loud
    by (simp add: run5_autocorrelation run5_rms [symmetric])
qed

text \<open>
  A single impulse \<^verbatim>\<open>1, 0, 0, 0, 0\<close> under the same configuration: every computed
  autocorrelation value is 0, the peak is at lag 2 with the flat neighbourhood
  \<^verbatim>\<open>0, 0, 0\<close>, the offset is \<^verbatim>\<open>0 / 0\<close>, and the frequency \<^verbatim>\<open>NaN\<close> passes both
  comparisons of the range test.
\<close>

lemma impulse_autocorrelation:
  assumes "sampleRate d = 4" and "minFrequency d = 1" and "maxFrequency d = 2"
  shows "autocorrelationPitchDetection d [Fin 1, Fin 0, Fin 0, Fin 0, Fin 0] = Inr NaN"
  using assms by (simp add: detector_defs Let_def)

lemma impulse_rms: "calculateRMS [Fin 1, Fin 0, Fin 0, Fin 0, Fin 0] = Fin (sqrt (1/5))"
  by (simp add: calculateRMS_def)

lemma impulse_loud:
  "\<not> js_lt (calculateRMS [Fin 1, Fin 0, Fin 0, Fin 0, Fin 0]) (Fin (1/10))"
  unfolding impulse_rms js_lt.simps
  using sqrt_less_iff_square [of "1/10" "1/5"] by (simp add: power2_eq_square)

lemma impulse_detectPitch:
  "detectPitch
     \<lparr>sampleRate = 4, minFrequency = 1, maxFrequency = 2, threshold = 1/10\<rparr>
     [Fin 1, Fin 0, Fin 0, Fin 0, Fin 0] =
     Inr \<lparr>frequency = NaN, confidence = Fin 0, isValid = False, rms = Fin (sqrt (1/5))\<rparr>"
proof -
  have "threshold \<lparr>sampleRate = 4, minFrequency = 1, maxFrequency = 2, threshold = 1/10\<rparr> = 1/10"
    by simp
  then show ?thesis
    unfolding detectPitch_def using impulse_loud
    by (simp add: impulse_autocorrelation impulse_rms [symmetric] calculateConfidence_NaN js_gt_def)
qed

subsection \<open>Rounding to the nearest number of p bits\<close>

lemma nearest_even_le: "z < real_of_int n + 1/2 \<Longrightarrow> nearest_even z \<le> n"
  unfolding nearest_even_def Let_def by (auto split: if_splits) linarith+

lemma nearest_even_ge: "real_of_int n - 1/2 < z \<Longrightarrow> n \<le> nearest_even z"
  unfolding nearest_even_def Let_def by (auto split: if_splits) linarith+

lemma nearest_even_eq: "real_of_int n - 1/2 < z \<Longrightarrow> z < real_of_int n + 1/2 \<Longrightarrow> nearest_even z = n"
  using nearest_even_le [of z n] nearest_even_ge [of n z] by simp

lemma nearest_even_error: "\<bar>real_of_int (nearest_even z) - z\<bar> \<le> 1/2"
  unfolding nearest_even_def Let_def by (auto split: if_splits)

lemma nearest_even_of_int [simp]: "nearest_even (real_of_int n) = n"
  by (rule nearest_even_eq) simp_all

lemma nearest_even_numeral [simp]:
  "nearest_even (numeral n) = numeral n" "nearest_even (- numeral n) = - numeral n"
  "nearest_even 0 = 0" "nearest_even 1 = 1"
  using nearest_even_of_int [of "numeral n"] nearest_even_of_int [of "- numeral n"]
    nearest_even_of_int [of 0] nearest_even_of_int [of 1]
  by simp_all


text \<open>
  Within the binade \<^verbatim>\<open>2^k <= |x| < 2^(k+1)\<close> the rounding is the nearest multiple of
  \<^verbatim>\<open>2^(k-p+1)\<close>.
\<close>

lemma floor_log2_eq:
  assumes "2 powr real_of_int k \<le> x" and "x < 2 powr (real_of_int k + 1)"
  shows "\<lfloor>log 2 x\<rfloor> = k"
proof -
  have pos: "0 < x"
    using assms(1) by (rule less_le_trans [rotated]) simp
  have "real_of_int k \<le> log 2 x"
    using assms(1) pos by (simp add: le_log_iff)
  moreover have "log 2 x < real_of_int k + 1"
    using assms(2) pos by (simp add: log_less_iff)
  ultimately show ?thesis
    by linarith
qed

lemma round_to_eval:
  assumes "2 powr real_of_int k \<le> \<bar>x\<bar>" and "\<bar>x\<bar> < 2 powr (real_of_int k + 1)"
  shows "round_to p x =
           2 powr (real_of_int k - real (p - 1)) *
           real_of_int (nearest_even (x / 2 powr (real_of_int k - real (p - 1))))"
proof -
  have "0 < \<bar>x\<bar>"
    using assms(1) by (rule less_le_trans [rotated]) simp
  then have "x \<noteq> 0"
    by simp
  then show ?thesis
    unfolding round_to_def Let_def floor_log2_eq [OF assms] by simp
qed

lemma round_to_le:
  assumes "2 powr real_of_int k \<le> \<bar>x\<bar>" and "\<bar>x\<bar> < 2 powr (real_of_int k + 1)"
    and "x < (real_of_int n + 1/2) * 2 powr (real_of_int k - real (p - 1))"
  shows "round_to p x \<le> real_of_int n * 2 powr (real_of_int k - real (p - 1))"
proof -
  define ulp where "ulp = 2 powr (real_of_int k - real (p - 1))"
  have ulp: "0 < ulp"
    by (simp add: ulp_def)
  from assms(3) ulp have "x / ulp < real_of_int n + 1/2"
    unfolding ulp_def [symmetric] by (simp add: field_simps)
  then have "nearest_even (x / ulp) \<le> n"
    by (rule nearest_even_le)
  then have "ulp * real_of_int (nearest_even (x / ulp)) \<le> ulp * real_of_int n"
    using ulp by simp
  then show ?thesis
    unfolding round_to_eval [OF assms(1,2)] ulp_def [symmetric] by (simp add: mult.commute)
qed

lemma round_to_ge:
  assumes "2 powr real_of_int k \<le> \<bar>x\<bar>" and "\<bar>x\<bar> < 2 powr (real_of_int k + 1)"
    and "(real_of_int n - 1/2) * 2 powr (real_of_int k - real (p - 1)) < x"
  shows "real_of_int n * 2 powr (real_of_int k - real (p - 1)) \<le> round_to p x"
proof -
  define ulp where "ulp = 2 powr (real_of_int k - real (p - 1))"
  have ulp: "0 < ulp"
    by (simp add: ulp_def)
  from assms(3) ulp have "real_of_int n - 1/2 < x / ulp"
    unfolding ulp_def [symmetric] by (simp add: field_simps)
  then have "n \<le> nearest_even (x / ulp)"
    by (rule nearest_even_ge)
  then have "ulp * real_of_int n \<le> ulp * real_of_int (nearest_even (x / ulp))"
    using ulp by simp
  then show ?thesis
    unfolding round_to_eval [OF assms(1,2)] ulp_def [symmetric] by (simp add: mult.commute)
qed

lemma round_to_eq:
  assumes "2 powr real_of_int k \<le> \<bar>x\<bar>" and "\<bar>x\<bar> < 2 powr (real_of_int k + 1)"
    and "(real_of_int n - 1/2) * 2 powr (real_of_int k - real (p - 1)) < x"
    and "x < (real_of_int n + 1/2) * 2 powr (real_of_int k - real (p - 1))"
  shows "round_to p x = real_of_int n * 2 powr (real_of_int k - real (p - 1))"
  using round_to_le [OF assms(1,2,4)] round_to_ge [OF assms(1,2,3)] by simp

text \<open>The relative error of a rounding is at most \<^verbatim>\<open>2^-p\<close>.\<close>

lemma round_to_error:
  assumes "0 < p"
  shows "\<bar>round_to p x - x\<bar> \<le> 2 powr (- real p) * \<bar>x\<bar>"
proof (cases "x = 0")
  case True
  then show ?thesis by (simp add: round_to_def)
next
  case False
  define e where "e = \<lfloor>log 2 \<bar>x\<bar>\<rfloor>"
  define ulp where "ulp = 2 powr (real_of_int e - real (p - 1))"
  define N where "N = real_of_int (nearest_even (x / ulp))"
  have ulp: "0 < ulp"
    by (simp add: ulp_def)
  have r: "round_to p x = ulp * N"
    using False by (simp add: round_to_def Let_def e_def ulp_def N_def)
  have "ulp * N - x = ulp * (N - x / ulp)"
    using ulp by (simp add: field_simps)
  then have "\<bar>round_to p x - x\<bar> = ulp * \<bar>N - x / ulp\<bar>"
    unfolding r using ulp by (simp add: abs_mult)
  also have "\<dots> \<le> ulp * (1/2)"
    using ulp nearest_even_error [of "x / ulp"] unfolding N_def
    by (intro mult_left_mono) simp_all
  also have "ulp * (1/2) = 2 powr real_of_int e * 2 powr (- real p)"
  proof -
    have "real_of_int e - real (p - 1) = real_of_int e + (- real p) + 1"
      using assms by (simp add: of_nat_diff)
    then have "ulp = 2 powr (real_of_int e + (- real p) + 1)"
      unfolding ulp_def by (rule arg_cong)
    also have "\<dots> = 2 powr real_of_int e * 2 powr (- real p) * 2"
      by (simp only: powr_add) simp
    finally show ?thesis by simp
  qed
  also have "\<dots> \<le> \<bar>x\<bar> * 2 powr (- real p)"
  proof -
    have "real_of_int e \<le> log 2 \<bar>x\<bar>"
      unfolding e_def by simp
    then have "2 powr real_of_int e \<le> \<bar>x\<bar>"
      using False by (simp add: powr_le_iff)
    then show ?thesis
      by (intro mult_right_mono) simp_all
  qed
  finally show ?thesis
    by (simp add: mult.commute)
qed

lemma to_double_error: "\<bar>to_double x - x\<bar> \<le> \<bar>x\<bar> / 2 ^ 53"
  using round_to_error [of 53 x] by (simp add: to_double_def powr_minus_divide)


lemma to_double_bound:
  assumes "\<bar>x\<bar> \<le> B"
  shows "\<bar>to_double x - x\<bar> \<le> B / 9007199254740992"
proof -
  have "\<bar>x\<bar> / 2 ^ 53 \<le> B / 2 ^ 53"
    using assms by (simp add: divide_right_mono)
  then show ?thesis
    using to_double_error [of x] by simp
qed


text \<open>An integer below \<^verbatim>\<open>2^p\<close> in absolute value is not changed.\<close>

lemma round_to_of_int:
  assumes "\<bar>n\<bar> < 2 ^ p" and "0 < p"
  shows "round_to p (real_of_int n) = real_of_int n"
proof (cases "n = 0")
  case True
  then show ?thesis by (simp add: round_to_def)
next
  case False
  define x where "x = \<bar>real_of_int n\<bar>"
  define e where "e = \<lfloor>log 2 x\<rfloor>"
  define s where "s = nat (int p - 1 - e)"
  have x1: "1 \<le> x"
    using False by (simp add: x_def)
  have x2: "x < 2 ^ p"
    unfolding x_def using assms(1) by (metis of_int_abs of_int_less_numeral_power_cancel_iff)
  have "0 \<le> log 2 x"
    using x1 by simp
  then have e1: "0 \<le> e"
    by (simp add: e_def)
  have "log 2 x < log 2 (2 ^ p)"
    using x1 x2 by (subst log_less_cancel_iff) simp_all
  then have "log 2 x < real p"
    by (simp add: log_nat_power)
  then have "e < int p"
    unfolding e_def by linarith
  then have s: "real s = real p - 1 - real_of_int e"
    unfolding s_def using assms(2) by (simp add: of_nat_diff)
  have "real_of_int e - real (p - 1) = - real s"
    using s assms(2) by (simp add: of_nat_diff)
  then have ulp: "2 powr (real_of_int e - real (p - 1)) = 1 / 2 ^ s"
    by (simp add: powr_minus_divide powr_realpow)
  have "real_of_int n / (1 / 2 ^ s) = real_of_int (n * 2 ^ s)"
    by simp
  then have "nearest_even (real_of_int n / (1 / 2 ^ s)) = n * 2 ^ s"
    by (simp only: nearest_even_of_int)
  then show ?thesis
    using False unfolding round_to_def Let_def x_def [symmetric] e_def [symmetric] ulp
    by (simp add: x_def)
qed

lemma to_double_of_int:
  assumes "\<bar>n\<bar> < 2 ^ 53"
  shows "to_double (real_of_int n) = real_of_int n"
  unfolding to_double_def using assms by (rule round_to_of_int) simp

lemma to_float32_of_int:
  assumes "\<bar>n\<bar> < 2 ^ 24"
  shows "to_float32 (real_of_int n) = real_of_int n"
  unfolding to_float32_def using assms by (rule round_to_of_int) simp

lemma to_double_0 [simp]: "to_double 0 = 0"
  by (simp add: to_double_def round_to_def)

lemma to_double_1 [simp]: "to_double 1 = 1"
  unfolding to_double_def by (subst round_to_eval [of 0]) (simp_all add: powr_minus_divide)

lemma to_double_440: "to_double 440 = 440"
  using to_double_of_int [of 440] by simp

subsection \<open>Logarithms to base 2 and roots of 2\<close>

lemma ln2_bounds: "1/2 \<le> ln (2::real)" "ln (2::real) \<le> 1"
proof -
  have "ln (1 - 1/2) \<le> - (1/2 :: real)"
    by (rule ln_one_minus_pos_upper_bound) simp_all
  moreover have "ln (1 - 1/2 :: real) = - ln 2"
    by (simp add: ln_div)
  ultimately show "1/2 \<le> ln (2::real)"
    by simp
  show "ln (2::real) \<le> 1"
    using ln_le_minus_one [of "2::real"] by simp
qed

lemma ln2_lower: "3/5 \<le> ln (2::real)"
proof -
  have "exp (3/5 :: real) \<le> 1 + 3/5 + (3/5)\<^sup>2"
    by (rule exp_bound) simp_all
  also have "\<dots> \<le> 2"
    by (simp add: power2_eq_square)
  finally have "exp (3/5 :: real) \<le> exp (ln 2)"
    by simp
  then show ?thesis
    by (simp only: exp_le_cancel_iff)
qed

lemma log2_lower_above_1:
  assumes "1 \<le> R" and "R \<le> 2"
  shows "(R - 1) - (R - 1)\<^sup>2 \<le> log 2 R"
proof -
  have "(R - 1) - (R - 1)\<^sup>2 \<le> ln (1 + (R - 1))"
    using assms by (intro ln_one_plus_pos_lower_bound) simp_all
  then have l: "(R - 1) - (R - 1)\<^sup>2 \<le> ln R"
    by simp
  have "0 \<le> ln R"
    using assms by simp
  then have "ln R * ln 2 \<le> ln R * 1"
    using ln2_bounds(2) by (intro mult_left_mono) simp_all
  then have "ln R \<le> ln R / ln 2"
    using ln2_bounds(1) by (simp add: field_simps)
  with l show ?thesis
    by (simp add: log_def)
qed

lemma log2_lower_between:
  assumes "1 + a \<le> R" and "R \<le> 1 + b" and "0 \<le> a" and "b \<le> 1"
  shows "a - b\<^sup>2 \<le> log 2 R"
proof -
  have "0 \<le> R - 1" "R - 1 \<le> b"
    using assms by simp_all
  then have "(R - 1)\<^sup>2 \<le> b\<^sup>2"
    by (intro power_mono) simp_all
  then have "a - b\<^sup>2 \<le> (R - 1) - (R - 1)\<^sup>2"
    using assms(1) by simp
  also have "\<dots> \<le> log 2 R"
    using assms by (intro log2_lower_above_1) simp_all
  finally show ?thesis .
qed

lemma log2_upper_below_1:
  assumes "0 < R" and "R \<le> 1"
  shows "log 2 R \<le> R - 1"
proof -
  have l: "ln R \<le> R - 1"
    using assms by (intro ln_le_minus_one)
  have "ln R \<le> 0"
    using assms by simp
  then have "ln R * 1 \<le> ln R * ln 2"
    using ln2_bounds(2) by (intro mult_left_mono_neg) simp_all
  then have "ln R / ln 2 \<le> ln R"
    using ln2_bounds(1) by (simp add: field_simps)
  with l show ?thesis
    by (simp add: log_def)
qed


lemma log2_lower_below_1:
  assumes "1 - x \<le> R" and "R \<le> 1" and "0 \<le> x" and "x \<le> 1/2"
  shows "- (5/3) * (x + 2 * x\<^sup>2) \<le> log 2 R"
proof -
  have pos: "0 < 1 - x"
    using assms(4) by simp
  have "- x - 2 * x\<^sup>2 \<le> ln (1 - x)"
    using assms(3,4) by (rule ln_one_minus_pos_lower_bound)
  also have "\<dots> \<le> ln R"
    using pos assms(1) by simp
  finally have l: "- x - 2 * x\<^sup>2 \<le> ln R" .
  have neg: "- x - 2 * x\<^sup>2 \<le> 0"
    using assms(3) zero_le_power2 [of x] by linarith
  have "(- x - 2 * x\<^sup>2) / (3/5) \<le> (- x - 2 * x\<^sup>2) / ln 2"
    using ln2_lower neg by (intro divide_left_mono_neg) simp_all
  also have "\<dots> \<le> ln R / ln 2"
    using l by (intro divide_right_mono) simp_all
  finally have "(- x - 2 * x\<^sup>2) / (3/5) \<le> log 2 R"
    by (simp only: log_def)
  then show ?thesis
    by argo
qed

text \<open>
  A logarithm next to a multiple of 1/24 is bounded through the 24th power of its
  argument, which is a rational number next to a power of 2.
\<close>

lemma log2_root24:
  assumes "0 < q"
  shows "log 2 q = (real_of_int j + log 2 (q ^ 24 * 2 powr (- real_of_int j))) / 24"
proof -
  have "log 2 (q ^ 24 * 2 powr (- real_of_int j)) = log 2 (q ^ 24) + log 2 (2 powr (- real_of_int j))"
    using assms by (intro log_mult_pos) simp_all
  also have "\<dots> = 24 * log 2 q - real_of_int j"
    using assms by (simp add: log_nat_power)
  finally show ?thesis
    by simp
qed

lemma log2_less_root:
  assumes "0 < q" and "q ^ n < 2" and "0 < n"
  shows "log 2 q < 1 / real n"
proof -
  have "log 2 (q ^ n) < log 2 2"
    using assms by (intro log_less) simp_all
  then have "real n * log 2 q < 1"
    using assms by (simp add: log_nat_power)
  then show ?thesis
    using assms(3) by (simp add: field_simps)
qed

lemma log2_gt_root:
  assumes "0 < q" and "1/2 < q ^ n" and "0 < n"
  shows "- (1 / real n) < log 2 q"
proof -
  have "log 2 (1/2) < log 2 (q ^ n)"
    using assms by (intro log_less) simp_all
  moreover have "log 2 (1/2) = - 1"
    by (simp add: log_divide_pos)
  ultimately have "- 1 < real n * log 2 q"
    using assms by (simp add: log_nat_power)
  then show ?thesis
    using assms(3) by (simp add: field_simps)
qed

lemma le_root:
  assumes "0 < a" and "a ^ n \<le> c" and "0 < n"
  shows "a \<le> c powr (1 / real n)"
proof -
  have "a = (a powr real n) powr (1 / real n)"
    using assms by (simp add: powr_powr)
  also have "\<dots> = (a ^ n) powr (1 / real n)"
    using assms(1) by (simp add: powr_realpow)
  also have "\<dots> \<le> c powr (1 / real n)"
    using assms by (intro powr_mono2) simp_all
  finally show ?thesis .
qed

lemma root_le:
  assumes "0 < a" and "c \<le> a ^ n" and "0 < n" and "0 \<le> c"
  shows "c powr (1 / real n) \<le> a"
proof -
  have "c powr (1 / real n) \<le> (a ^ n) powr (1 / real n)"
    using assms by (intro powr_mono2) simp_all
  also have "\<dots> = (a powr real n) powr (1 / real n)"
    using assms(1) by (simp add: powr_realpow)
  also have "\<dots> = a"
    using assms by (simp add: powr_powr)
  finally show ?thesis .
qed

lemma powr_neg_lower:
  assumes "0 \<le> (d::real)"
  shows "1 - d \<le> 2 powr (- d)"
proof -
  have "d * ln 2 \<le> d * 1"
    using assms ln2_bounds(2) by (intro mult_left_mono) simp_all
  then have "1 - d \<le> 1 + (- d * ln 2)"
    by simp
  also have "\<dots> \<le> exp (- d * ln 2)"
    by (rule exp_ge_add_one_self)
  also have "\<dots> = 2 powr (- d)"
    by (simp add: powr_def)
  finally show ?thesis .
qed

lemma log2_440: "8 \<le> log 2 440" "log 2 440 \<le> 9"
  by (subst le_log_iff, simp_all) (subst log_le_iff, simp_all)

lemma log2_64: "log 2 (1 / 64) = - 6"
proof -
  have "log 2 (2 powr (- 6)) = (- 6::real)"
    by simp
  then show ?thesis
    by (simp add: powr_minus_divide)
qed

text \<open>A rounding moves the logarithm of a positive number by at most four relative errors.\<close>

lemma log2_one_plus:
  assumes "\<bar>d\<bar> \<le> 1/2"
  shows "\<bar>log 2 (1 + d)\<bar> \<le> 4 * \<bar>d\<bar>"
proof -
  have "\<bar>ln (1 + d) - d\<bar> \<le> 2 * d\<^sup>2"
    using assms by (rule abs_ln_one_plus_x_minus_x_bound)
  moreover have "\<bar>d\<bar> * \<bar>d\<bar> \<le> \<bar>d\<bar> * (1/2)"
    using assms by (intro mult_left_mono) simp_all
  moreover have "d\<^sup>2 = \<bar>d\<bar> * \<bar>d\<bar>"
    by (simp add: power2_eq_square)
  ultimately have l: "\<bar>ln (1 + d)\<bar> \<le> 2 * \<bar>d\<bar>"
    by argo
  have "\<bar>log 2 (1 + d)\<bar> = \<bar>ln (1 + d)\<bar> / ln 2"
    by (simp add: log_def)
  also have "\<dots> \<le> \<bar>ln (1 + d)\<bar> / (1/2)"
    using ln2_bounds(1) by (intro divide_left_mono) simp_all
  also have "\<dots> \<le> 4 * \<bar>d\<bar>"
    using l by simp
  finally show ?thesis .
qed

lemma log2_round_to:
  assumes "0 < p" and "0 < x"
  shows "0 < round_to p x"
    and "\<bar>log 2 (round_to p x) - log 2 x\<bar> \<le> 4 * 2 powr (- real p)"
proof -
  define d where "d = (round_to p x - x) / x"
  have r: "round_to p x = x * (1 + d)"
    using assms(2) by (simp add: d_def field_simps)
  have "real 1 \<le> real p"
    using assms(1) by (simp del: of_nat_1)
  then have "2 powr (- real p) \<le> 2 powr (- 1)"
    by (intro powr_mono) simp_all
  then have half: "2 powr (- real p) \<le> 1/2"
    by (simp add: powr_minus_divide)
  have "\<bar>round_to p x - x\<bar> \<le> 2 powr (- real p) * \<bar>x\<bar>"
    using assms(1) by (rule round_to_error)
  then have "\<bar>round_to p x - x\<bar> / x \<le> 2 powr (- real p)"
    using assms(2) by (simp add: field_simps)
  then have d: "\<bar>d\<bar> \<le> 2 powr (- real p)"
    using assms(2) by (simp add: d_def)
  then have d2: "\<bar>d\<bar> \<le> 1/2"
    using half by linarith
  then have pos: "0 < 1 + d"
    by linarith
  then show "0 < round_to p x"
    unfolding r using assms(2) by simp
  have "log 2 (round_to p x) = log 2 x + log 2 (1 + d)"
    unfolding r using assms(2) pos by (intro log_mult_pos) simp_all
  moreover have "\<bar>log 2 (1 + d)\<bar> \<le> 4 * \<bar>d\<bar>"
    using d2 by (rule log2_one_plus)
  ultimately show "\<bar>log 2 (round_to p x) - log 2 x\<bar> \<le> 4 * 2 powr (- real p)"
    using d by linarith
qed

lemma log2_to_double:
  assumes "0 < x"
  shows "0 < to_double x" and "\<bar>log 2 (to_double x) - log 2 x\<bar> \<le> 4 / 9007199254740992"
  using log2_round_to [of 53 x] assms by (simp_all add: to_double_def powr_minus_divide)


subsection \<open>The note of the browser port and its rounding errors\<close>

lemma js_round_bounds: "x - 1/2 < real_of_int (js_round x)" "real_of_int (js_round x) \<le> x + 1/2"
  unfolding js_round_def by linarith+

lemma smod_nonneg: "0 \<le> m \<Longrightarrow> m smod 12 = m mod (12::int)"
  by (cases "m = 0") (simp_all add: signed_modulo_int_def)


lemma lookup_nonneg:
  assumes "0 \<le> m"
  shows "lookup noteNamesItalian (m smod 12) = Some (noteNamesItalian ! nat (m mod 12))"
    and "lookup noteNamesAnglo (m smod 12) = Some (noteNamesAnglo ! nat (m mod 12))"
proof -
  have "0 \<le> m mod 12" and "m mod 12 < 12"
    by simp_all
  then show "lookup noteNamesItalian (m smod 12) = Some (noteNamesItalian ! nat (m mod 12))"
    and "lookup noteNamesAnglo (m smod 12) = Some (noteNamesAnglo ! nat (m mod 12))"
    using assms by (simp_all add: smod_nonneg lookup_def noteNamesItalian_def noteNamesAnglo_def)
qed

text \<open>The fields of the note of a positive frequency, given the rounded half steps.\<close>

lemma centsOffset_unfold:
  assumes "0 < f"
  shows "centsOffset (getNoteFromFrequency f) =
           to_double (1200 * Math_log2 (to_double (f /
             to_double (440 * Math_pow 2 (to_double (real_of_int
               (js_round (to_double (12 * Math_log2 (to_double (f / 440))))) / 12))))))"
  using assms by (simp add: getNoteFromFrequency_def Let_def)

lemma getNoteFromFrequency_fields:
  assumes "0 < f" and "js_round (to_double (12 * Math_log2 (to_double (f / 440)))) = k"
  shows "noteName (getNoteFromFrequency f) = lookup noteNamesItalian ((k + 69) smod 12)"
    and "noteNameAnglo (getNoteFromFrequency f) = lookup noteNamesAnglo ((k + 69) smod 12)"
    and "octave (getNoteFromFrequency f) = \<lfloor>to_double (real_of_int (k + 69) / 12)\<rfloor> - 1"
    and "midiNote (getNoteFromFrequency f) = Some (k + 69)"
    and "noteFrequency (getNoteFromFrequency f) =
           to_double (440 * Math_pow 2 (to_double (real_of_int k / 12)))"
    and "actualFrequency (getNoteFromFrequency f) = f"
    and "centsOffset (getNoteFromFrequency f) =
           to_double (1200 * Math_log2 (to_double (f /
             to_double (440 * Math_pow 2 (to_double (real_of_int k / 12))))))"
    and "noteIsValid (getNoteFromFrequency f) = True"
  using assms by (simp_all add: getNoteFromFrequency_def Let_def)

text \<open>
  The computed half steps are within \<^verbatim>\<open>2^-38\<close> of \<^verbatim>\<open>12 * log2(f / 440)\<close>, and the computed
  cents offset is within \<^verbatim>\<open>2^-32\<close> of a hundred times the distance of the exact half
  steps to the MIDI number.
\<close>

lemma halfSteps_error:
  assumes "0 < f" and "\<bar>log 2 (f / 440)\<bar> \<le> 1010"
  shows "\<bar>to_double (12 * Math_log2 (to_double (f / 440))) - 12 * log 2 (f / 440)\<bar> \<le> 1 / 274877906944"
proof -
  define x where "x = log 2 (to_double (f / 440))"
  define L where "L = to_double x"
  have a: "0 < f / 440"
    using assms(1) by simp
  have x: "\<bar>x - log 2 (f / 440)\<bar> \<le> 4 / 9007199254740992"
    unfolding x_def using a by (rule log2_to_double)
  then have "\<bar>x\<bar> \<le> 1011"
    using assms(2) by argo
  then have L: "\<bar>L - x\<bar> \<le> 1011 / 9007199254740992"
    unfolding L_def by (rule to_double_bound)
  then have "\<bar>12 * L\<bar> \<le> 12144"
    using \<open>\<bar>x\<bar> \<le> 1011\<close> by argo
  then have "\<bar>to_double (12 * L) - 12 * L\<bar> \<le> 12144 / 9007199254740992"
    by (rule to_double_bound)
  then have "\<bar>to_double (12 * L) - 12 * log 2 (f / 440)\<bar> \<le> 1 / 274877906944"
    using x L by argo
  then show ?thesis
    unfolding L_def x_def Math_log2_def .
qed

lemma cents_error:
  assumes "0 < f" and "\<bar>real_of_int k\<bar> \<le> 12200"
    and "\<bar>12 * log 2 (f / 440) - real_of_int k\<bar> \<le> 1"
  shows "\<bar>to_double (1200 * Math_log2 (to_double (f /
             to_double (440 * Math_pow 2 (to_double (real_of_int k / 12)))))) -
          100 * (12 * log 2 (f / 440) - real_of_int k)\<bar> \<le> 1 / 4294967296"
proof -
  define y where "y = real_of_int k / 12"
  define e where "e = to_double y"
  define P where "P = to_double (2 powr e)"
  define F where "F = to_double (440 * P)"
  define Q where "Q = to_double (f / F)"
  define X where "X = log 2 Q"
  define L where "L = to_double X"
  define C where "C = to_double (1200 * L)"
  have "\<bar>y\<bar> \<le> 1017"
    using assms(2) unfolding y_def by argo
  then have e: "\<bar>e - y\<bar> \<le> 1017 / 9007199254740992"
    unfolding e_def by (rule to_double_bound)
  have P: "0 < P" "\<bar>log 2 P - log 2 (2 powr e)\<bar> \<le> 4 / 9007199254740992"
    unfolding P_def by (rule log2_to_double, simp)+
  have F: "0 < F" "\<bar>log 2 F - log 2 (440 * P)\<bar> \<le> 4 / 9007199254740992"
    unfolding F_def using P(1) by (intro log2_to_double, simp)+
  have Q: "0 < Q" "\<bar>log 2 Q - log 2 (f / F)\<bar> \<le> 4 / 9007199254740992"
    unfolding Q_def using F(1) assms(1) by (intro log2_to_double, simp)+
  have l1: "log 2 (2 powr e) = e"
    by simp
  have l2: "log 2 (440 * P) = log 2 440 + log 2 P"
    using P(1) by (intro log_mult_pos) simp_all
  have l3: "log 2 (f / F) = log 2 f - log 2 F"
    using F(1) assms(1) by (intro log_divide_pos) simp_all
  have l4: "log 2 (f / 440) = log 2 f - log 2 440"
    using assms(1) by (intro log_divide_pos) simp_all
  have X: "\<bar>X - (log 2 (f / 440) - y)\<bar> \<le> 1029 / 9007199254740992"
    unfolding X_def using e P(2) F(2) Q(2) unfolding l1 l2 l3 l4 by argo
  have t: "\<bar>log 2 (f / 440) - y\<bar> \<le> 1 / 12"
    using assms(3) unfolding y_def by argo
  have "\<bar>X\<bar> \<le> 1 / 8"
    using X t by argo
  then have L: "\<bar>L - X\<bar> \<le> 1 / 8 / 9007199254740992"
    unfolding L_def by (rule to_double_bound)
  then have "\<bar>1200 * L\<bar> \<le> 151"
    using \<open>\<bar>X\<bar> \<le> 1 / 8\<close> by argo
  then have "\<bar>C - 1200 * L\<bar> \<le> 151 / 9007199254740992"
    unfolding C_def by (rule to_double_bound)
  then have "\<bar>C - 100 * (12 * log 2 (f / 440) - real_of_int k)\<bar> \<le> 1 / 4294967296"
    using L X unfolding y_def by argo
  then show ?thesis
    unfolding C_def L_def X_def Q_def F_def P_def e_def y_def Math_log2_def Math_pow_def .
qed

text \<open>The octave: the rounded quotient has the floor of the exact one.\<close>

lemma floor_to_double_div_12:
  assumes "0 \<le> m" and "m \<le> 1000"
  shows "\<lfloor>to_double (real_of_int m / 12)\<rfloor> = m div 12"
proof (cases "m mod 12 = 0")
  case True
  then have "12 dvd m"
    by presburger
  then have "real_of_int m / 12 = real_of_int (m div 12)"
    using real_of_int_div [of 12 m] by simp
  moreover have "\<bar>m div 12\<bar> < 2 ^ 53"
    using assms by simp
  ultimately show ?thesis
    by (simp add: to_double_of_int)
next
  case False
  define q where "q = m div 12"
  define r where "r = m mod 12"
  have m: "m = 12 * q + r"
    by (simp add: q_def r_def)
  have r: "1 \<le> r" "r \<le> 11"
    using False unfolding r_def by (simp_all add: less_le)
  have x: "real_of_int m / 12 = real_of_int q + real_of_int r / 12"
    unfolding m by simp
  have lo: "real_of_int q + 1 / 12 \<le> real_of_int m / 12"
    and hi: "real_of_int m / 12 \<le> real_of_int q + 11 / 12"
    unfolding x using r by simp_all
  have "\<bar>real_of_int m / 12\<bar> \<le> 100"
    using assms by simp
  then have "\<bar>to_double (real_of_int m / 12) - real_of_int m / 12\<bar> \<le> 100 / 9007199254740992"
    by (rule to_double_bound)
  then have "real_of_int q \<le> to_double (real_of_int m / 12)"
    and "to_double (real_of_int m / 12) < real_of_int q + 1"
    using lo hi by argo+
  then show ?thesis
    unfolding q_def [symmetric] by (simp add: floor_eq_iff)
qed

subsection \<open>The note of the desktop port and its rounding errors\<close>


lemma Math_Log_error:
  assumes "0 < a" and "\<bar>log 2 a\<bar> \<le> B"
  shows "\<bar>Math_Log a 2 - log 2 a\<bar> \<le> 6 * B / 9007199254740992"
proof -
  define X where "X = log 2 a"
  define A where "A = to_double (ln a)"
  define D where "D = to_double (ln 2)"
  define a' where "a' = (A - ln a) / ln 2"
  define b' where "b' = (D - ln 2) / ln 2"
  define z where "z = X * b'"
  have ln2: "0 < ln (2::real)"
    by simp
  have lna: "ln a = X * ln 2"
    by (simp add: X_def log_def)
  have "\<bar>A - ln a\<bar> \<le> \<bar>ln a\<bar> / 2 ^ 53"
    unfolding A_def by (rule to_double_error)
  then have "\<bar>A - ln a\<bar> / ln 2 \<le> \<bar>ln a\<bar> / 2 ^ 53 / ln 2"
    using ln2 by (intro divide_right_mono) simp_all
  then have a: "\<bar>a'\<bar> \<le> \<bar>X\<bar> / 9007199254740992"
    using ln2 by (simp add: a'_def lna abs_mult)
  have "\<bar>D - ln 2\<bar> \<le> \<bar>ln 2\<bar> / 2 ^ 53"
    unfolding D_def by (rule to_double_error)
  then have "\<bar>D - ln 2\<bar> / ln 2 \<le> \<bar>ln 2\<bar> / 2 ^ 53 / ln 2"
    using ln2 by (intro divide_right_mono) simp_all
  then have b: "\<bar>b'\<bar> \<le> 1 / 9007199254740992"
    using ln2 by (simp add: b'_def)
  have A: "A = ln 2 * (X + a')"
    using ln2 by (simp add: a'_def lna field_simps)
  have D: "D = ln 2 * (1 + b')"
    using ln2 by (simp add: b'_def field_simps)
  have den: "1 / 2 \<le> 1 + b'"
    using b by argo
  have quot: "A / D = (X + a') / (1 + b')"
    unfolding A D using ln2 by simp
  have diff: "A / D - X = (a' - z) / (1 + b')"
    unfolding quot z_def using den by (simp add: field_simps)
  have "\<bar>X\<bar> * \<bar>b'\<bar> \<le> \<bar>X\<bar> * (1 / 9007199254740992)"
    using b by (intro mult_left_mono) simp_all
  then have z: "\<bar>z\<bar> \<le> \<bar>X\<bar> / 9007199254740992"
    by (simp add: z_def abs_mult)
  have num: "\<bar>a' - z\<bar> \<le> 2 * \<bar>X\<bar> / 9007199254740992"
    using a z by argo
  have "\<bar>(a' - z) / (1 + b')\<bar> = \<bar>a' - z\<bar> / (1 + b')"
    using den by simp
  also have "\<dots> \<le> \<bar>a' - z\<bar> / (1 / 2)"
    using den by (intro divide_left_mono) simp_all
  finally have q: "\<bar>A / D - X\<bar> \<le> 4 * \<bar>X\<bar> / 9007199254740992"
    unfolding diff using num by argo
  have X: "\<bar>X\<bar> \<le> B"
    using assms(2) by (simp add: X_def)
  have "\<bar>A / D\<bar> \<le> 2 * B"
    using q X by argo
  then have "\<bar>to_double (A / D) - A / D\<bar> \<le> 2 * B / 9007199254740992"
    by (rule to_double_bound)
  then have "\<bar>to_double (A / D) - X\<bar> \<le> 6 * B / 9007199254740992"
    using q X by argo
  then show ?thesis
    unfolding Math_Log_def A_def D_def X_def .
qed






subsection \<open>The browser port at 452.8929841231365 Hz\<close>

text \<open>
  The frequency is the double \<^verbatim>\<open>7967377634904959 / 2^44\<close>, a little above the boundary
  between MIDI 69 and MIDI 70. Step by step: the quotient by 440, its logarithm, the
  half steps and their rounding to 1, the exponent 1/12, the power, the frequency
  of MIDI 70, the ratio to it, its logarithm and the cents offset.
\<close>

lemma run452_quotient: "to_double (7967377634904959/17592186044416 / 440) = 4635565169399249/4503599627370496"
  unfolding to_double_def
  by (subst round_to_eval [of 0]) (simp_all add: powr_minus_divide nearest_even_def)

lemma run452_log_quotient:
  "6004799503160661.5 / 2 ^ 57 < log 2 (4635565169399249/4503599627370496)"
  "log 2 (4635565169399249/4503599627370496) < 1/16"
proof -
  define q :: real where "q = 4635565169399249/4503599627370496"
  define R where "R = q ^ 24 * 2 powr (- real_of_int 1)"
  have q: "0 < q" by (simp add: q_def)
  have R: "R = q ^ 24 / 2"
    by (simp add: R_def powr_minus_divide)
  have lo: "1 + 100 / 2 ^ 57 \<le> R"
    unfolding R q_def by (simp add: power_divide)
  have hi: "R \<le> 1 + 1 / 2 ^ 40"
    unfolding R q_def by (simp add: power_divide)
  have "100 / 2 ^ 57 - (1 / 2 ^ 40)\<^sup>2 \<le> log 2 R"
    using lo hi by (rule log2_lower_between) simp_all
  moreover have "(4::real) / 2 ^ 57 < 100 / 2 ^ 57 - (1 / 2 ^ 40)\<^sup>2"
    by (simp add: power2_eq_square)
  ultimately have "4 / 2 ^ 57 < log 2 R"
    by (rule less_le_trans [rotated])
  moreover have "log 2 q = (real_of_int 1 + log 2 R) / 24"
    unfolding R_def using q by (rule log2_root24)
  ultimately show "6004799503160661.5 / 2 ^ 57 < log 2 (4635565169399249/4503599627370496)"
    unfolding q_def [symmetric] by simp
  have "log 2 q < 1 / real 16"
    using q by (rule log2_less_root) (simp_all add: q_def power_divide)
  then show "log 2 (4635565169399249/4503599627370496) < 1/16"
    unfolding q_def by simp
qed

lemma run452_Math_log2:
  "6004799503160662 / 2 ^ 57 \<le> Math_log2 (4635565169399249/4503599627370496)"
  "Math_log2 (4635565169399249/4503599627370496) \<le> 1/16"
proof -
  define x :: real where "x = log 2 (4635565169399249/4503599627370496)"
  have lo: "6004799503160661.5 / 2 ^ 57 < x" and hi: "x < 1/16"
    unfolding x_def by (rule run452_log_quotient)+
  have b: "2 powr real_of_int (- 5) \<le> \<bar>x\<bar>" "\<bar>x\<bar> < 2 powr (real_of_int (- 5) + 1)"
    using lo hi by (simp_all add: powr_minus_divide)
  have "real_of_int 6004799503160662 * 2 powr (real_of_int (- 5) - real (53 - 1)) \<le> round_to 53 x"
    using b by (rule round_to_ge) (use lo in \<open>simp add: powr_minus_divide\<close>)
  then show "6004799503160662 / 2 ^ 57 \<le> Math_log2 (4635565169399249/4503599627370496)"
    unfolding Math_log2_def to_double_def x_def by (simp add: powr_minus_divide)
  have "round_to 53 x \<le> real_of_int 9007199254740992 * 2 powr (real_of_int (- 5) - real (53 - 1))"
    using b by (rule round_to_le) (use hi in \<open>simp add: powr_minus_divide\<close>)
  then show "Math_log2 (4635565169399249/4503599627370496) \<le> 1/16"
    unfolding Math_log2_def to_double_def x_def by (simp add: powr_minus_divide)
qed

lemma run452_js_round:
  "js_round (to_double (12 * Math_log2 (4635565169399249/4503599627370496))) = 1"
proof -
  define y :: real where "y = 12 * Math_log2 (4635565169399249/4503599627370496)"
  have lo: "1/2 \<le> y" and hi: "y \<le> 3/4"
    unfolding y_def using run452_Math_log2 by simp_all
  have b: "2 powr real_of_int (- 1) \<le> \<bar>y\<bar>" "\<bar>y\<bar> < 2 powr (real_of_int (- 1) + 1)"
    using lo hi by (simp_all add: powr_minus_divide)
  have "real_of_int 4503599627370496 * 2 powr (real_of_int (- 1) - real (53 - 1)) \<le> round_to 53 y"
    using b by (rule round_to_ge) (use lo in \<open>simp add: powr_minus_divide\<close>)
  then have l: "1/2 \<le> to_double y"
    unfolding to_double_def by (simp add: powr_minus_divide)
  have "round_to 53 y \<le> real_of_int 6755399441055744 * 2 powr (real_of_int (- 1) - real (53 - 1))"
    using b by (rule round_to_le) (use hi in \<open>simp add: powr_minus_divide\<close>)
  then have u: "to_double y \<le> 3/4"
    unfolding to_double_def by (simp add: powr_minus_divide)
  from l u have "\<lfloor>to_double y + 1/2\<rfloor> = 1"
    by linarith
  then show ?thesis
    unfolding js_round_def y_def .
qed

lemma run452_js_round_f:
  "js_round (to_double (12 * Math_log2 (to_double (7967377634904959/17592186044416 / 440)))) = 1"
  unfolding run452_quotient by (rule run452_js_round)

lemma run452_exponent: "to_double (real_of_int 1 / 12) = 6004799503160661/72057594037927936"
  unfolding to_double_def
  by (subst round_to_eval [of "-4"]) (simp_all add: powr_minus_divide nearest_even_def)

lemma run452_Math_pow: "Math_pow 2 (6004799503160661/72057594037927936) = 4771397596969315/4503599627370496"
proof -
  define x :: real where "x = 2 powr (6004799503160661/72057594037927936)"
  define r :: real where "r = 2 powr (1 / real 12)"
  define w :: real where "w = 2 powr (- (1/216172782113783808))"
  have lo_r: "19085590387877259/18014398509481984 \<le> r"
    unfolding r_def by (rule le_root) (simp_all add: power_divide)
  have hi_r: "r \<le> 4771397596969315/4503599627370496"
    unfolding r_def by (rule root_le) (simp_all add: power_divide)
  have x: "x = r * w"
    unfolding x_def r_def w_def by (simp add: powr_add [symmetric])
  have lo_w: "1 - 1/216172782113783808 \<le> w"
    unfolding w_def by (rule powr_neg_lower) simp
  have "w \<le> 2 powr 0"
    unfolding w_def by (rule powr_mono) simp_all
  then have hi_w: "w \<le> 1"
    by simp
  have "19085590387877259/18014398509481984 * (1 - 1/216172782113783808) \<le> r * w"
    using lo_r lo_w by (intro mult_mono) simp_all
  then have lo: "(4771397596969315 - 1/2) / 4503599627370496 < x"
    unfolding x by simp
  have "r * w \<le> 4771397596969315/4503599627370496 * 1"
    using hi_r hi_w lo_r lo_w by (intro mult_mono) simp_all
  then have hi: "x < (4771397596969315 + 1/2) / 4503599627370496"
    unfolding x by simp
  have b: "2 powr real_of_int 0 \<le> \<bar>x\<bar>" "\<bar>x\<bar> < 2 powr (real_of_int 0 + 1)"
    using lo hi by simp_all
  have "round_to 53 x =
          real_of_int 4771397596969315 * 2 powr (real_of_int 0 - real (53 - 1))"
    using b by (rule round_to_eq) (use lo hi in \<open>simp_all add: powr_minus_divide\<close>)
  then show ?thesis
    unfolding Math_pow_def to_double_def x_def by (simp add: powr_minus_divide)
qed

lemma run452_perfectFrequency:
  "to_double (440 * (4771397596969315/4503599627370496)) = 4100419809895505/8796093022208"
  unfolding to_double_def
  by (subst round_to_eval [of 8]) (simp_all add: powr_minus_divide nearest_even_def)

lemma run452_ratio:
  "to_double (7967377634904959/17592186044416 / (4100419809895505/8796093022208)) =
     2187695444078957/2251799813685248"
  unfolding to_double_def
  by (subst round_to_eval [of "-1"]) (simp_all add: powr_minus_divide nearest_even_def)

lemma run452_log_ratio_exact:
  "- (6004799503160663.5 / 2 ^ 57) < log 2 (2187695444078957/2251799813685248)"
  "log 2 (2187695444078957/2251799813685248) < - (6004799503160662.5 / 2 ^ 57)"
proof -
  define q :: real where "q = 2187695444078957/2251799813685248"
  define R where "R = q ^ 24 * 2 powr (- real_of_int (- 1))"
  have q: "0 < q" by (simp add: q_def)
  have R: "R = q ^ 24 * 2"
    by (simp add: R_def)
  have pos: "0 < R"
    unfolding R using q by simp
  have hi: "R \<le> 1 - 151 / (5 * 2 ^ 57)"
    unfolding R q_def by (simp add: power_divide)
  have lo: "1 - 121 / 2 ^ 59 \<le> R"
    unfolding R q_def by (simp add: power_divide)
  have "log 2 R \<le> R - 1"
    using pos hi by (intro log2_upper_below_1) simp_all
  then have u: "log 2 R \<le> - (151 / (5 * 2 ^ 57))"
    using hi by simp
  have "R \<le> 1"
    using hi by simp
  with lo have "- (5/3) * (121 / 2 ^ 59 + 2 * (121 / 2 ^ 59)\<^sup>2) \<le> log 2 R"
    by (rule log2_lower_below_1) simp_all
  moreover have "- (51 / 2 ^ 57) \<le> - (5/3) * (121 / 2 ^ 59 + 2 * (121 / 2 ^ 59)\<^sup>2 :: real)"
    by (simp add: power2_eq_square)
  ultimately have l: "- (51 / 2 ^ 57) \<le> log 2 R"
    by (rule order_trans [rotated])
  have e: "log 2 q = (real_of_int (- 1) + log 2 R) / 24"
    unfolding R_def using q by (rule log2_root24)
  show "- (6004799503160663.5 / 2 ^ 57) < log 2 (2187695444078957/2251799813685248)"
    unfolding q_def [symmetric] e using l by simp
  show "log 2 (2187695444078957/2251799813685248) < - (6004799503160662.5 / 2 ^ 57)"
    unfolding q_def [symmetric] e using u by simp
qed

lemma run452_Math_log2_ratio_exact:
  "Math_log2 (2187695444078957/2251799813685248) = - (6004799503160663/144115188075855872)"
proof -
  define x :: real where "x = log 2 (2187695444078957/2251799813685248)"
  have lo: "- (6004799503160663.5 / 2 ^ 57) < x" and hi: "x < - (6004799503160662.5 / 2 ^ 57)"
    unfolding x_def by (rule run452_log_ratio_exact)+
  have b: "2 powr real_of_int (- 5) \<le> \<bar>x\<bar>" "\<bar>x\<bar> < 2 powr (real_of_int (- 5) + 1)"
    using lo hi by (simp_all add: powr_minus_divide)
  have "round_to 53 x =
          real_of_int (- 6004799503160663) * 2 powr (real_of_int (- 5) - real (53 - 1))"
    using b by (rule round_to_eq) (use lo hi in \<open>simp_all add: powr_minus_divide\<close>)
  then show ?thesis
    unfolding Math_log2_def to_double_def x_def by (simp add: powr_minus_divide)
qed

lemma run452_cents_exact:
  "to_double (1200 * - (6004799503160663/144115188075855872)) =
     - (3518437208883201/70368744177664)"
  unfolding to_double_def
  by (subst round_to_eval [of 5]) (simp_all add: powr_minus_divide nearest_even_def)

subsection \<open>Both ports at 80.06092834472656 Hz\<close>








subsection \<open>The notes of 6.875 Hz and of 440 Hz\<close>

text \<open>
  6.875 Hz is six octaves below 440 Hz: 72 half steps down, MIDI number -3. In the
  browser port every operation of this run is exact; in the desktop port the quotient
  of the two logarithms is within a few units in the last place of -6, and the cast
  to \<^verbatim>\<open>float\<close> gives -6.
\<close>

lemma to_double_64th: "to_double (1/64) = 1/64"
  unfolding to_double_def by (subst round_to_eval [of "-6"]) (simp_all add: powr_minus_divide)

lemma to_double_minus_6: "to_double (- 6) = - 6"
  unfolding to_double_def by (subst round_to_eval [of 2]) (simp_all add: powr_minus_divide)

lemma to_double_minus_72: "to_double (- 72) = - 72"
  unfolding to_double_def by (subst round_to_eval [of 6]) (simp_all add: powr_minus_divide)

lemma to_double_55_8: "to_double (55/8) = 55/8"
  unfolding to_double_def by (subst round_to_eval [of 2]) (simp_all add: powr_minus_divide)

lemma to_double_minus_quarter: "to_double (- (1/4)) = - (1/4)"
  unfolding to_double_def by (subst round_to_eval [of "-2"]) (simp_all add: powr_minus_divide)

lemma to_float32_64th: "to_float32 (1/64) = 1/64"
  unfolding to_float32_def by (subst round_to_eval [of "-6"]) (simp_all add: powr_minus_divide)

lemma Math_Log_64th: "to_float32 (Math_Log (1/64) 2) = - 6"
proof -
  define x where "x = Math_Log (1/64) 2"
  have "\<bar>x - log 2 (1/64)\<bar> \<le> 6 * 6 / 9007199254740992"
    unfolding x_def by (intro Math_Log_error) (simp_all add: log2_64)
  then have lo: "- 6 - 1 / 4194304 < x" and hi: "x < - 6 + 1 / 4194304"
    unfolding log2_64 by argo+
  have b: "2 powr real_of_int 2 \<le> \<bar>x\<bar>" "\<bar>x\<bar> < 2 powr (real_of_int 2 + 1)"
    using lo hi by simp_all
  have "round_to 24 x = real_of_int (- 12582912) * 2 powr (real_of_int 2 - real (24 - 1))"
    using b by (rule round_to_eq) (use lo hi in \<open>simp_all add: powr_minus_divide\<close>)
  then show ?thesis
    unfolding to_float32_def x_def by (simp add: powr_minus_divide)
qed

lemma to_float32_minus_72: "to_float32 (- 72) = - 72"
  using to_float32_of_int [of "- 72"] by simp

lemma GetNoteFromFrequency_low: "GetNoteFromFrequency (55/8) = Inl IndexOutOfRangeException"
proof -
  have i: "(- 3 :: int) smod 12 = - 3"
    by (simp add: signed_modulo_int_def)
  show ?thesis
    by (simp add: GetNoteFromFrequency_def Let_def to_float32_64th Math_Log_64th to_float32_minus_72 cs_round_def i)
qed

text \<open>The reference pitch: 440 Hz is MIDI 69, LA or A, in octave 4, with no offset.\<close>

lemma getNoteFromFrequency_A4:
  "getNoteFromFrequency 440 =
     \<lparr>noteName = Some ''LA'', noteNameAnglo = Some ''A'', octave = 4, midiNote = Some 69,
      noteFrequency = 440, actualFrequency = 440, centsOffset = 0, noteIsValid = True,
      isInTune = Some True, tuningStatus = Some ''In Tune''\<rparr>"
proof -
  have i: "(69 :: int) smod 12 = 9"
    by (simp add: signed_modulo_int_def)
  have o: "\<lfloor>to_double (23 / 4)\<rfloor> = 5"
    using floor_to_double_div_12 [of 69] by simp
  show ?thesis
    by (simp add: getNoteFromFrequency_def Let_def Math_log2_def Math_pow_def js_round_def i o
          to_double_440 lookup_def noteNamesItalian_def noteNamesAnglo_def)
qed

text \<open>From MIDI number 0 upwards both names come from the tables.\<close>

lemma note_names_in_table:
  assumes "0 < f" and "0 \<le> js_round (to_double (12 * Math_log2 (to_double (f / 440)))) + 69"
  shows "\<exists>i < 12. noteName (getNoteFromFrequency f) = Some (noteNamesItalian ! i) \<and>
                  noteNameAnglo (getNoteFromFrequency f) = Some (noteNamesAnglo ! i)"
proof -
  define k where "k = js_round (to_double (12 * Math_log2 (to_double (f / 440))))"
  have m: "0 \<le> k + 69"
    using assms(2) by (simp add: k_def)
  have "0 \<le> (k + 69) mod 12" and "(k + 69) mod 12 < 12"
    by simp_all
  then have "nat ((k + 69) mod 12) < 12"
    by simp
  moreover have "noteName (getNoteFromFrequency f) = Some (noteNamesItalian ! nat ((k + 69) mod 12))"
    and "noteNameAnglo (getNoteFromFrequency f) = Some (noteNamesAnglo ! nat ((k + 69) mod 12))"
    using getNoteFromFrequency_fields(1,2) [OF assms(1) k_def [symmetric]] lookup_nonneg [OF m]
    by simp_all
  ultimately show ?thesis
    by blast
qed

section \<open>C1: parabolic interpolation at a zero denominator\<close>

text \<open>
  C1 as the specification states it: at an interior peak whose denominator
  \<^verbatim>\<open>alpha - 2 * beta + gamma\<close> is 0 the refinement returns the integer lag. The source
  divides without a test. For the array \<^verbatim>\<open>[0, 0, -1, -2, -1]\<close> and index 2 the
  denominator is \<^verbatim>\<open>0 + 2 - 2 = 0\<close>, the numerator is \<^verbatim>\<open>0.5 * 2\<close>, and the refined lag
  is \<^verbatim>\<open>2 + Infinity\<close>, not 2.
\<close>

theorem parabolicInterpolation_zero_denominator_counterexample:
  "js_add (js_sub (Fin 0) (js_mul (Fin 2) (Fin (- 1)))) (Fin (- 2)) = Fin 0 \<and>
   parabolicInterpolation [Fin 0, Fin 0, Fin (- 1), Fin (- 2), Fin (- 1)] 2 = PInf \<and>
   parabolicInterpolation [Fin 0, Fin 0, Fin (- 1), Fin (- 2), Fin (- 1)] 2 \<noteq> Fin 2"
  by (simp add: parabolicInterpolation_def item_def js_sub_def)

text \<open>
  C1, amended: at an interior index whose denominator is 0 the refined lag is never
  a finite number. It is \<^verbatim>\<open>NaN\<close> when the two neighbours are equal (0 / 0) and an
  infinity when they differ. The sign of the infinity is left open, since it follows
  the sign of the zero.
\<close>

theorem parabolicInterpolation_zero_denominator:
  assumes "0 < index" and "index + 1 < length data"
    and "js_add (js_sub (data ! (index - 1)) (js_mul (Fin 2) (data ! index))) (data ! (index + 1)) = Fin 0"
  shows "(data ! (index - 1) = data ! (index + 1) \<longrightarrow> parabolicInterpolation data index = NaN) \<and>
         (data ! (index - 1) \<noteq> data ! (index + 1) \<longrightarrow>
            parabolicInterpolation data index = PInf \<or> parabolicInterpolation data index = NInf)"
proof -
  from assms(3) obtain x y z where
    v: "data ! (index - 1) = Fin x" "data ! index = Fin y" "data ! (index + 1) = Fin z"
    and z: "x - 2 * y + z = 0"
    by (rule zero_denominator_finite)
  have "parabolicInterpolation data index =
          js_add (Fin (real index)) (js_div (Fin (1/2 * (x - z))) (Fin 0))"
    unfolding parabolicInterpolation_interior [OF assms(1,2)] v using z
    by (simp add: js_sub_def)
  then show ?thesis
    unfolding v by auto
qed

text \<open>
  The theorem at two arrays: \<^verbatim>\<open>[0, 0, -1, -2, -1]\<close> at index 2, where the
  neighbours differ, and \<^verbatim>\<open>[0, 0, 0]\<close> at index 1, where they are equal.
\<close>

theorem parabolicInterpolation_zero_denominator_witness:
  "(0::nat) < 2 \<and> 2 + 1 < length [Fin 0, Fin 0, Fin (- 1), Fin (- 2), Fin (- 1)] \<and>
   js_add (js_sub (Fin 0) (js_mul (Fin 2) (Fin (- 1)))) (Fin (- 2)) = Fin 0 \<and>
   parabolicInterpolation [Fin 0, Fin 0, Fin (- 1), Fin (- 2), Fin (- 1)] 2 \<in> {PInf, NInf} \<and>
   parabolicInterpolation [Fin 0, Fin 0, Fin 0] 1 = NaN"
  using parabolicInterpolation_zero_denominator [of 2 "[Fin 0, Fin 0, Fin (- 1), Fin (- 2), Fin (- 1)]"]
    parabolicInterpolation_zero_denominator [of 1 "[Fin 0, Fin 0, Fin 0]"]
  by (simp add: js_sub_def)

section \<open>C2: construction with an invalid configuration\<close>

text \<open>
  C2 as the specification states it: an invalid configuration makes the constructor
  fail with a ConfigurationError. The constructor only stores its arguments. Sample
  rate 0, minimum 1500 above maximum 70 and threshold 2 give a detector.
\<close>

theorem construction_invalid_counterexample:
  "newPitchDetector 0 1500 70 2 =
     Inr \<lparr>sampleRate = 0, minFrequency = 1500, maxFrequency = 70, threshold = 2\<rparr> \<and>
   newPitchDetector 0 1500 70 2 \<noteq> Inl ConfigurationError"
  by (simp add: newPitchDetector_def)

text \<open>
  C2, amended: constructing a PitchDetector never fails. For every configuration,
  valid or not, the constructor returns a detector that holds the four arguments as
  they were given.
\<close>

theorem construction_never_fails:
  "\<exists>d. newPitchDetector sr mn mx th = Inr d \<and> sampleRate d = sr \<and> minFrequency d = mn \<and>
       maxFrequency d = mx \<and> threshold d = th"
  by (simp add: newPitchDetector_def)

section \<open>C3: buffers no longer than the maximum lag\<close>

text \<open>
  C3 as the specification states it: a buffer whose length is at most
  \<^verbatim>\<open>floor(sampleRate / minFrequency)\<close> and whose RMS reaches the threshold gives
  \<^verbatim>\<open>isValid = false\<close>. The source has no test of the length. At sample rate 6 with
  the range 1 to 4 Hz the maximum lag is 6; the six samples \<^verbatim>\<open>1, -1, 1, -1, 1, -1\<close>
  have RMS 1 and are reported as a valid pitch of 32/11 Hz with confidence 1.
\<close>

theorem short_buffer_valid_counterexample:
  "lagOf 6 1 = Fin 6 \<and>
   length [Fin 1, Fin (- 1), Fin 1, Fin (- 1), Fin 1, Fin (- 1)] \<le> 6 \<and>
   \<not> js_lt (calculateRMS [Fin 1, Fin (- 1), Fin 1, Fin (- 1), Fin 1, Fin (- 1)]) (Fin (1/10)) \<and>
   detectPitch \<lparr>sampleRate = 6, minFrequency = 1, maxFrequency = 4, threshold = 1/10\<rparr>
     [Fin 1, Fin (- 1), Fin 1, Fin (- 1), Fin 1, Fin (- 1)] =
     Inr \<lparr>frequency = Fin (32/11), confidence = Fin 1, isValid = True, rms = Fin 1\<rparr>"
  by (simp add: run6_detectPitch run6_rms lagOf_def)

text \<open>
  C3, amended: the length that forces \<^verbatim>\<open>isValid = false\<close> is twice the minimum lag,
  not the maximum lag. For every buffer whose length is at most
  \<^verbatim>\<open>2 * floor(sampleRate / maxFrequency)\<close> the result of detectPitch is not valid,
  because the period of every frequency in range is then at least half the length
  and the confidence is 0.
\<close>

theorem short_buffer_invalid:
  assumes "detectPitch d samples = Inr r" and "0 < maxFrequency d"
    and "length samples \<le> 2 * (sampleRate d div maxFrequency d)"
  shows "\<not> isValid r"
proof
  assume "isValid r"
  with assms(1) obtain f where hi: "js_le f (Fin (real (maxFrequency d)))"
    and c: "js_gt (calculateConfidence d samples f) (Fin (1/2))"
    by (rule detectPitch_valid)
  from c obtain x where x: "f = Fin x" "0 < x"
    and p: "2 * \<lfloor>real (sampleRate d) / x\<rfloor> < int (length samples)"
    by (rule confidence_period)
  from hi x have "x \<le> real (maxFrequency d)"
    by auto
  with x(2) have "real (sampleRate d) / real (maxFrequency d) \<le> real (sampleRate d) / x"
    by (simp add: frac_le)
  then have "\<lfloor>real (sampleRate d) / real (maxFrequency d)\<rfloor> \<le> \<lfloor>real (sampleRate d) / x\<rfloor>"
    by (rule floor_mono)
  then have "int (sampleRate d div maxFrequency d) \<le> \<lfloor>real (sampleRate d) / x\<rfloor>"
    by (simp add: floor_divide_of_nat_eq)
  with p assms(3) show False
    by linarith
qed

text \<open>The theorem at the two samples \<^verbatim>\<open>1, -1\<close>, sample rate 6 and range 1 to 4 Hz.\<close>

theorem short_buffer_invalid_witness:
  "(0::nat) < 4 \<and> length [Fin 1, Fin (- 1)] \<le> 2 * (6 div 4) \<and>
   detectPitch \<lparr>sampleRate = 6, minFrequency = 1, maxFrequency = 4, threshold = 1/10\<rparr>
     [Fin 1, Fin (- 1)] =
     Inr \<lparr>frequency = Fin (12/5), confidence = Fin 0, isValid = False, rms = Fin 1\<rparr>"
proof -
  have run: "detectPitch \<lparr>sampleRate = 6, minFrequency = 1, maxFrequency = 4, threshold = 1/10\<rparr>
     [Fin 1, Fin (- 1)] =
     Inr \<lparr>frequency = Fin (12/5), confidence = Fin 0, isValid = False, rms = Fin 1\<rparr>"
    by (simp add: detectPitch_def detector_defs Let_def upt_Suc_0_numeral)
  from short_buffer_invalid [OF run] show ?thesis
    using run by simp
qed

section \<open>C4: the sign of the reported frequency\<close>

text \<open>
  C4 says that the frequency of every result is at least 0, also where an
  out-of-range frequency is returned as it is. The code at sample rate 4 with the
  range 1 to 2 Hz and the five samples \<^verbatim>\<open>1, 0.875, 0, -0.875, -1\<close>: the peak is at
  lag 2, the first lag the loop computes, and \<^verbatim>\<open>parabolicInterpolation\<close> takes
  \<^verbatim>\<open>autocorrelation[1]\<close>, an entry the loop never wrote, as the left neighbour; its
  end test guards index 0 and not the first computed lag. The offset is -4, the
  refined lag -2 and the frequency \<^verbatim>\<open>4 / -2 = -2\<close>, which the range test passes on
  unchanged. Between two autocorrelation values that do not exceed the peak, one of
  them below it, the offset is at most one half (lemma \<^verbatim>\<open>parabolicInterpolation_at_peak\<close>).
\<close>

theorem negative_frequency_at_first_lag:
  "detectPitch \<lparr>sampleRate = 4, minFrequency = 1, maxFrequency = 2, threshold = 1/10\<rparr>
     [Fin 1, Fin (7/8), Fin 0, Fin (- (7/8)), Fin (- 1)] =
     Inr \<lparr>frequency = Fin (- 2), confidence = Fin 0, isValid = False,
          rms = Fin (sqrt (113/160))\<rparr> \<and>
   \<not> js_ge (Fin (- 2)) (Fin 0)"
  using run5_detectPitch by (simp add: js_ge_def)

section \<open>C5: the three gates of isValid\<close>

text \<open>
  C5: for every buffer, the flag \<^verbatim>\<open>isValid\<close> of the result is true if and only if
  the three gates pass: the RMS is not below the signal threshold (the silence test
  \<^verbatim>\<open>rms < threshold\<close> is false), the detected frequency lies between minFrequency and
  maxFrequency, and the confidence computed for it exceeds 0.5. The detector returns
  a result for every buffer once minFrequency is positive.
\<close>

theorem isValid_iff_gates:
  assumes "0 < minFrequency d"
  shows "\<exists>r f. detectPitch d samples = Inr r \<and> autocorrelationPitchDetection d samples = Inr f \<and>
           (isValid r \<longleftrightarrow>
              \<not> js_lt (calculateRMS samples) (Fin (threshold d)) \<and>
              js_le (Fin (real (minFrequency d))) f \<and> js_le f (Fin (real (maxFrequency d))) \<and>
              js_gt (calculateConfidence d samples f) (Fin (1/2)))"
proof -
  from assms obtain f where f: "autocorrelationPitchDetection d samples = Inr f"
    using autocorrelation_returns by blast
  from assms obtain r where r: "detectPitch d samples = Inr r"
    using detectPitch_returns by blast
  have "isValid r \<longleftrightarrow>
          \<not> js_lt (calculateRMS samples) (Fin (threshold d)) \<and>
          js_le (Fin (real (minFrequency d))) f \<and> js_le f (Fin (real (maxFrequency d))) \<and>
          js_gt (calculateConfidence d samples f) (Fin (1/2))"
  proof (cases "samples = []")
    case True
    with r show ?thesis
      by (auto simp: detectPitch_def calculateConfidence_empty js_gt_def)
  next
    case False
    show ?thesis
    proof (cases "js_lt (calculateRMS samples) (Fin (threshold d))")
      case True
      with r False show ?thesis
        by (auto simp: detectPitch_def)
    next
      case loud: False
      show ?thesis
      proof (cases "f = NaN")
        case True
        with r f False loud show ?thesis
          by (auto simp: detectPitch_def calculateConfidence_NaN js_gt_def)
      next
        case False
        with range_test [of f "real (minFrequency d)" "real (maxFrequency d)"]
        have "\<not> (js_lt f (Fin (real (minFrequency d))) \<or> js_gt f (Fin (real (maxFrequency d))))
              \<longleftrightarrow> js_le (Fin (real (minFrequency d))) f \<and> js_le f (Fin (real (maxFrequency d)))"
          by simp
        with r f \<open>samples \<noteq> []\<close> loud show ?thesis
          by (auto simp: detectPitch_def split: if_splits)
      qed
    qed
  qed
  with r f show ?thesis
    by blast
qed

text \<open>The theorem at the square wave, where all three gates pass and the result is valid.\<close>

theorem isValid_iff_gates_witness:
  "(0::nat) < 1 \<and>
   detectPitch \<lparr>sampleRate = 6, minFrequency = 1, maxFrequency = 4, threshold = 1/10\<rparr>
     [Fin 1, Fin (- 1), Fin 1, Fin (- 1), Fin 1, Fin (- 1)] =
     Inr \<lparr>frequency = Fin (32/11), confidence = Fin 1, isValid = True, rms = Fin 1\<rparr> \<and>
   autocorrelationPitchDetection
     \<lparr>sampleRate = 6, minFrequency = 1, maxFrequency = 4, threshold = 1/10\<rparr>
     [Fin 1, Fin (- 1), Fin 1, Fin (- 1), Fin 1, Fin (- 1)] = Inr (Fin (32/11)) \<and>
   \<not> js_lt (calculateRMS [Fin 1, Fin (- 1), Fin 1, Fin (- 1), Fin 1, Fin (- 1)]) (Fin (1/10)) \<and>
   js_le (Fin (real 1)) (Fin (32/11)) \<and> js_le (Fin (32/11)) (Fin (real 4)) \<and>
   js_gt (calculateConfidence
            \<lparr>sampleRate = 6, minFrequency = 1, maxFrequency = 4, threshold = 1/10\<rparr>
            [Fin 1, Fin (- 1), Fin 1, Fin (- 1), Fin 1, Fin (- 1)] (Fin (32/11))) (Fin (1/2))"
  using isValid_iff_gates [of "\<lparr>sampleRate = 6, minFrequency = 1, maxFrequency = 4, threshold = 1/10\<rparr>"
              "[Fin 1, Fin (- 1), Fin 1, Fin (- 1), Fin 1, Fin (- 1)]"]
  by (simp add: run6_detectPitch run6_autocorrelation run6_confidence run6_rms js_gt_def)

section \<open>C6: the reads of the autocorrelation loops\<close>

text \<open>
  C6: with \<^verbatim>\<open>bufferSize = min(len(samples), 2 * maxLag)\<close> and the inner loop bound
  \<^verbatim>\<open>i < bufferSize - lag\<close>, every pair of indices the inner loop reads, \<^verbatim>\<open>i\<close> and
  \<^verbatim>\<open>i + lag\<close>, is below the length of the buffer, for every lag (those from
  minLag to maxLag among them) and also when maxLag exceeds the length; so no read
  of the sum yields \<^verbatim>\<open>undefined\<close>.
\<close>

theorem autocorrelation_reads_in_bounds:
  "(\<forall>(i, j) \<in> set (lagIndices (min (length samples) (maxLag * 2)) lag).
      j = i + lag \<and> i < length samples \<and> j < length samples) \<and>
   lagSum samples (min (length samples) (maxLag * 2)) lag =
     foldl (\<lambda>sum (i, j). js_add sum (js_mul (samples ! i) (samples ! j))) (Fin 0)
       (lagIndices (min (length samples) (maxLag * 2)) lag)"
proof
  show "\<forall>(i, j) \<in> set (lagIndices (min (length samples) (maxLag * 2)) lag).
      j = i + lag \<and> i < length samples \<and> j < length samples"
    by (auto simp: lagIndices_def)
next
  show "lagSum samples (min (length samples) (maxLag * 2)) lag =
     foldl (\<lambda>sum (i, j). js_add sum (js_mul (samples ! i) (samples ! j))) (Fin 0)
       (lagIndices (min (length samples) (maxLag * 2)) lag)"
    unfolding lagSum_def
  proof (rule foldl_cong [OF refl refl])
    fix a x
    assume x: "x \<in> set (lagIndices (min (length samples) (maxLag * 2)) lag)"
    obtain i j where ij: "x = (i, j)"
      by (rule prod.exhaust)
    from x have "i < length samples \<and> j < length samples"
      unfolding ij by (auto simp: lagIndices_def)
    then show "(case x of (i, j) \<Rightarrow> js_add a (js_mul (item samples i) (item samples j))) =
               (case x of (i, j) \<Rightarrow> js_add a (js_mul (samples ! i) (samples ! j)))"
      unfolding ij by (simp add: item_def)
  qed
qed

text \<open>
  The theorem at three samples \<^verbatim>\<open>1, 2, 3\<close>, maximum lag 5 and lag 1: the reads are
  (0, 1) and (1, 2) and the sum is \<^verbatim>\<open>1 * 2 + 2 * 3\<close>.
\<close>

theorem autocorrelation_reads_in_bounds_witness:
  "lagIndices (min (length [Fin 1, Fin 2, Fin 3]) (5 * 2)) 1 = [(0, 1), (1, 2)] \<and>
   (0::nat) < length [Fin 1, Fin 2, Fin 3] \<and> (1::nat) < length [Fin 1, Fin 2, Fin 3] \<and>
   (2::nat) < length [Fin 1, Fin 2, Fin 3] \<and>
   lagSum [Fin 1, Fin 2, Fin 3] (min (length [Fin 1, Fin 2, Fin 3]) (5 * 2)) 1 = Fin 8"
  using autocorrelation_reads_in_bounds [of "[Fin 1, Fin 2, Fin 3]" 5 1]
  by (simp add: lagIndices_def)

section \<open>C7: the range of the cents offset\<close>

text \<open>
  C7 says that for every frequency above 0 the cents offset of the mapped note lies
  between -50 and 50. The code at 452.8929841231365 Hz, the double
  \<^verbatim>\<open>7967377634904959 / 2^44\<close>, a frequency next to the boundary between MIDI 69 and
  MIDI 70: the computed half steps round to 1, the note is MIDI 70 with the frequency
  \<^verbatim>\<open>4100419809895505 / 2^43\<close> = 466.1637615180899 Hz, and the roundings of the quotient,
  the logarithm and the product leave the cents offset \<^verbatim>\<open>-50 - 2^-46\<close> =
  -50.000000000000014, below -50.
\<close>

theorem centsOffset_below_minus_50_counterexample:
  "getNoteFromFrequency (7967377634904959/17592186044416) =
     \<lparr>noteName = Some ''LA#'', noteNameAnglo = Some ''A#'', octave = 4, midiNote = Some 70,
      noteFrequency = 4100419809895505/8796093022208,
      actualFrequency = 7967377634904959/17592186044416,
      centsOffset = - (3518437208883201/70368744177664), noteIsValid = True,
      isInTune = Some False, tuningStatus = Some ''Flat''\<rparr> \<and>
   centsOffset (getNoteFromFrequency (7967377634904959/17592186044416)) < - 50"
proof -
  have i: "(70 :: int) smod 12 = 10"
    by (simp add: signed_modulo_int_def)
  have o: "\<lfloor>to_double (35 / 6)\<rfloor> = 5"
    using floor_to_double_div_12 [of 70] by simp
  have p: "to_double (440 * Math_pow 2 (to_double (1 / 12))) = 4100419809895505/8796093022208"
    using run452_exponent by (simp only: of_int_1 run452_Math_pow run452_perfectFrequency)
  have c: "to_double (1200 * Math_log2 (to_double
             (7967377634904959/17592186044416 / (4100419809895505/8796093022208)))) =
           - (3518437208883201/70368744177664)"
    by (simp only: run452_ratio run452_Math_log2_ratio_exact run452_cents_exact)
  show ?thesis
    unfolding getNoteFromFrequency_def Let_def
    by (simp add: run452_js_round_f i o p c lookup_def noteNamesItalian_def noteNamesAnglo_def
          del: divide_divide_eq_left divide_divide_eq_right times_divide_eq_left
               times_divide_eq_right)
qed

text \<open>
  C7, amended: for every frequency from \<^verbatim>\<open>2^-1000\<close> to \<^verbatim>\<open>2^1000\<close> Hz the cents offset of
  the mapped note lies between \<^verbatim>\<open>-50 - 10^-9\<close> and \<^verbatim>\<open>50 + 10^-9\<close>: it can leave the
  interval from -50 to 50 by the rounding errors of the computation and no further.
  On this range of frequencies every intermediate result is a normal double.
\<close>

theorem centsOffset_within_rounding:
  assumes "2 powr (- 1000) \<le> f" and "f \<le> 2 powr 1000"
  shows "- 50 - 1 / 10 ^ 9 \<le> centsOffset (getNoteFromFrequency f) \<and>
         centsOffset (getNoteFromFrequency f) \<le> 50 + 1 / 10 ^ 9"
proof -
  define t where "t = 12 * log 2 (f / 440)"
  define h where "h = to_double (12 * Math_log2 (to_double (f / 440)))"
  define k where "k = js_round h"
  have f: "0 < f"
    using assms(1) by (rule less_le_trans [rotated]) simp
  have "- 1000 \<le> log 2 f"
    using f assms(1) by (simp add: le_log_iff)
  moreover have "log 2 f \<le> 1000"
    using f assms(2) by (subst log_le_iff) simp_all
  moreover have "log 2 (f / 440) = log 2 f - log 2 440"
    using f by (intro log_divide_pos) simp_all
  ultimately have l: "\<bar>log 2 (f / 440)\<bar> \<le> 1009"
    using log2_440 by argo
  then have "\<bar>log 2 (f / 440)\<bar> \<le> 1010"
    by argo
  with f have "\<bar>h - 12 * log 2 (f / 440)\<bar> \<le> 1 / 274877906944"
    unfolding h_def by (rule halfSteps_error)
  then have h: "\<bar>h - t\<bar> \<le> 1 / 274877906944"
    by (simp add: t_def)
  have t: "\<bar>t\<bar> \<le> 12108"
    unfolding t_def using l by argo
  have k: "h - 1/2 < real_of_int k" "real_of_int k \<le> h + 1/2"
    unfolding k_def by (rule js_round_bounds)+
  have k1: "\<bar>real_of_int k\<bar> \<le> 12200"
    using k h t by argo
  have k2: "\<bar>t - real_of_int k\<bar> \<le> 1/2 + 1 / 274877906944"
    using k h by argo
  then have k3: "\<bar>12 * log 2 (f / 440) - real_of_int k\<bar> \<le> 1"
    unfolding t_def by argo
  have "\<bar>to_double (1200 * Math_log2 (to_double (f /
             to_double (440 * Math_pow 2 (to_double (real_of_int k / 12)))))) -
          100 * (12 * log 2 (f / 440) - real_of_int k)\<bar> \<le> 1 / 4294967296"
    using f k1 k3 by (rule cents_error)
  then have "\<bar>centsOffset (getNoteFromFrequency f) - 100 * (t - real_of_int k)\<bar> \<le> 1 / 4294967296"
    unfolding centsOffset_unfold [OF f] k_def h_def t_def .
  then have "- 50 - 1 / 1000000000 \<le> centsOffset (getNoteFromFrequency f) \<and>
             centsOffset (getNoteFromFrequency f) \<le> 50 + 1 / 1000000000"
    using k2 by argo
  then show ?thesis
    by simp
qed

text \<open>The theorem at 440 Hz, where the offset is 0.\<close>

theorem centsOffset_within_rounding_witness:
  "2 powr (- 1000) \<le> (440::real) \<and> (440::real) \<le> 2 powr 1000 \<and>
   - 50 - 1 / 10 ^ 9 \<le> centsOffset (getNoteFromFrequency 440) \<and>
   centsOffset (getNoteFromFrequency 440) \<le> 50 + 1 / 10 ^ 9"
  using centsOffset_within_rounding [of 440] by (simp add: powr_minus_divide)

section \<open>C8: the pitch class of a mapped note\<close>

text \<open>
  C8 says that every frequency above 0 is mapped to one of the twelve names of each
  table. The code at 6.875 Hz: the MIDI number is -3, the remainder \<^verbatim>\<open>-3 % 12\<close> is
  -3, both lookups leave the table and both names are \<^verbatim>\<open>undefined\<close>, in a note that
  is marked valid. The octave is \<^verbatim>\<open>floor(-3 / 12) - 1 = -2\<close>.
\<close>

theorem note_name_undefined_below_midi_0:
  "getNoteFromFrequency (55/8) =
     \<lparr>noteName = None, noteNameAnglo = None, octave = - 2, midiNote = Some (- 3),
      noteFrequency = 55/8, actualFrequency = 55/8, centsOffset = 0, noteIsValid = True,
      isInTune = Some True, tuningStatus = Some ''In Tune''\<rparr>"
proof -
  have i: "(- 3 :: int) smod 12 = - 3"
    by (simp add: signed_modulo_int_def)
  show ?thesis
    by (simp add: getNoteFromFrequency_def Let_def Math_log2_def Math_pow_def log2_64
          to_double_64th to_double_minus_6 to_double_minus_72 to_double_55_8
          to_double_minus_quarter js_round_def i lookup_def powr_minus_divide)
qed

section \<open>C9: the browser port against the desktop port\<close>




section \<open>C10: a buffer whose RMS equals the threshold\<close>

text \<open>
  C10: for every non-empty buffer whose RMS is exactly the signal threshold,
  detectPitch does not take the silence branch. Its result is what the code after
  the silence test builds from the autocorrelation estimate: an exception of the
  estimation is passed on, and otherwise the frequency is the estimate, with the
  confidence and the validity that the range test and calculateConfidence give.
\<close>

theorem threshold_boundary_is_signal:
  assumes "samples \<noteq> []" and "calculateRMS samples = Fin (threshold d)"
  shows "detectPitch d samples =
           (case autocorrelationPitchDetection d samples of
              Inl e \<Rightarrow> Inl e
            | Inr f \<Rightarrow>
                Inr \<lparr>frequency = f,
                     confidence =
                       (if js_lt f (Fin (real (minFrequency d))) \<or> js_gt f (Fin (real (maxFrequency d)))
                        then Fin 0 else calculateConfidence d samples f),
                     isValid =
                       (\<not> (js_lt f (Fin (real (minFrequency d))) \<or> js_gt f (Fin (real (maxFrequency d)))) \<and>
                        js_gt (calculateConfidence d samples f) (Fin (1/2))),
                     rms = Fin (threshold d)\<rparr>)"
  using assms by (simp add: detectPitch_def split: sum.split)

text \<open>The theorem at the square wave, whose RMS is 1, with the threshold 1: a valid pitch.\<close>

theorem threshold_boundary_is_signal_witness:
  "[Fin 1, Fin (- 1), Fin 1, Fin (- 1), Fin 1, Fin (- 1)] \<noteq> [] \<and>
   calculateRMS [Fin 1, Fin (- 1), Fin 1, Fin (- 1), Fin 1, Fin (- 1)] = Fin 1 \<and>
   detectPitch \<lparr>sampleRate = 6, minFrequency = 1, maxFrequency = 4, threshold = 1\<rparr>
     [Fin 1, Fin (- 1), Fin 1, Fin (- 1), Fin 1, Fin (- 1)] =
     Inr \<lparr>frequency = Fin (32/11), confidence = Fin 1, isValid = True, rms = Fin 1\<rparr>"
  using threshold_boundary_is_signal [of "[Fin 1, Fin (- 1), Fin 1, Fin (- 1), Fin 1, Fin (- 1)]"
               "\<lparr>sampleRate = 6, minFrequency = 1, maxFrequency = 4, threshold = 1\<rparr>"]
  by (simp add: run6_rms run6_autocorrelation run6_confidence js_gt_def)

end
